theory Spec2Isabelle
  imports Main "HOL-Library.Word"
begin

unbundle bit_operations_syntax

section \<open>Common data: bytes, images, files, errors\<close>

text \<open>
  Both scripts work on Pillow images read from a directory. A byte is an 8-bit word; an
  RGBA pixel is the tuple \<open>(r, g, b, a)\<close> that \<open>getpixel\<close> returns. An image carries its
  \<open>size\<close> (width, height) and its pixel data, addressed by \<open>(x, y)\<close>.
\<close>

type_synonym byte = "8 word"

type_synonym pixel = "byte \<times> byte \<times> byte \<times> byte"

record image =
  img_size :: "nat \<times> nat"
  pixels :: "nat \<times> nat \<Rightarrow> pixel"

text \<open>
  What \<open>Image.open(path).convert("RGBA")\<close> yields for a file that exists: an RGBA image,
  or an exception when the bytes are not an image.
\<close>

datatype png_file = Undecodable | Png image

datatype error =
    FileNotFoundError
  | UnidentifiedImageError
  | AssertionError "nat \<times> nat"
  | IndexError
  | ValueError

text \<open>\<open>img.getpixel((x, y))\<close>: Pillow raises IndexError outside the image.\<close>

definition getpixel :: "image \<Rightarrow> nat \<times> nat \<Rightarrow> error + pixel" where
  "getpixel img xy =
     (case xy of (x, y) \<Rightarrow>
        if x < fst (img_size img) \<and> y < snd (img_size img)
        then Inr (pixels img (x, y)) else Inl IndexError)"

text \<open>\<open>bytearray.append(v)\<close>: raises ValueError unless \<open>0 <= v < 256\<close>.\<close>

definition bytearray_append :: "byte list \<Rightarrow> int \<Rightarrow> error + byte list" where
  "bytearray_append ba v =
     (if 0 \<le> v \<and> v < 256 then Inr (ba @ [word_of_int v]) else Inl ValueError)"

text \<open>A \<open>for\<close> loop over a list whose body may raise: the first exception ends the loop.\<close>

fun for_each :: "'a list \<Rightarrow> ('a \<Rightarrow> 's \<Rightarrow> error + 's) \<Rightarrow> 's \<Rightarrow> error + 's" where
  "for_each [] body s = Inr s"
| "for_each (x # xs) body s =
     (case body x s of Inl e \<Rightarrow> Inl e | Inr s' \<Rightarrow> for_each xs body s')"

section \<open>The pixel codec (convert\_to\_lvgl.py)\<close>

subsection \<open>Encoder: \<open>png_to_rgb565a8\<close>\<close>

text \<open>
  Line 67: \<open>rgb565 = ((r >> 3) << 11) | ((g >> 2) << 5) | (b >> 3)\<close>, on Python's
  unbounded integers.
\<close>

definition rgb565 :: "int \<Rightarrow> int \<Rightarrow> int \<Rightarrow> int" where
  "rgb565 r g b = push_bit 11 (drop_bit 3 r) OR push_bit 5 (drop_bit 2 g) OR drop_bit 3 b"

text \<open>An exception raised by a statement propagates through the statements after it.\<close>

definition bind_err :: "error + 'a \<Rightarrow> ('a \<Rightarrow> error + 'b) \<Rightarrow> error + 'b" where
  "bind_err m f = (case m of Inl e \<Rightarrow> Inl e | Inr x \<Rightarrow> f x)"

text \<open>
  The body of the inner loop (lines 65 to 71), on the pair of byte arrays
  \<open>(rgb565_data, alpha_data)\<close>.
\<close>

definition pixel_body ::
  "image \<Rightarrow> nat \<Rightarrow> nat \<Rightarrow> byte list \<times> byte list \<Rightarrow> error + byte list \<times> byte list" where
  "pixel_body img y x st =
     bind_err (getpixel img (x, y)) (\<lambda>(r, g, b, a).
       let v = rgb565 (uint r) (uint g) (uint b) in
       bind_err (bytearray_append (fst st) (v AND 0xFF)) (\<lambda>d1.
       bind_err (bytearray_append d1 (drop_bit 8 v AND 0xFF)) (\<lambda>d2.
       bind_err (bytearray_append (snd st) (uint a)) (\<lambda>a1.
       Inr (d2, a1)))))"

text \<open>
  \<open>png_to_rgb565a8(png_path)\<close>, reading the file from the directory \<open>fs\<close>. The
  \<open>assert\<close> on the size is the only check; the result is \<open>rgb565_data + alpha_data\<close>.
\<close>

definition png_to_rgb565a8 :: "(string \<rightharpoonup> png_file) \<Rightarrow> string \<Rightarrow> error + byte list" where
  "png_to_rgb565a8 fs png_path =
     (case fs png_path of
        None \<Rightarrow> Inl FileNotFoundError
      | Some Undecodable \<Rightarrow> Inl UnidentifiedImageError
      | Some (Png img) \<Rightarrow>
          if img_size img = (32, 32)
          then bind_err
                 (for_each [0..<32] (\<lambda>y. for_each [0..<32] (\<lambda>x. pixel_body img y x)) ([], []))
                 (\<lambda>st. Inr (fst st @ snd st))
          else Inl (AssertionError (img_size img)))"

text \<open>
  Names for the expressions of the loop body: the 16-bit colour value of a pixel (line 67),
  the two bytes appended for it (lines 68 and 69, low byte first) and its alpha byte
  (line 71); and the pixels in the order the two loops visit them (\<open>y\<close> outer, \<open>x\<close> inner).
\<close>

definition rgb565_of :: "pixel \<Rightarrow> int" where
  "rgb565_of p = (case p of (r, g, b, a) \<Rightarrow> rgb565 (uint r) (uint g) (uint b))"

definition alpha_of :: "pixel \<Rightarrow> byte" where
  "alpha_of p = (case p of (r, g, b, a) \<Rightarrow> a)"

definition color_pair :: "pixel \<Rightarrow> byte list" where
  "color_pair p = [word_of_int (rgb565_of p AND 0xFF), word_of_int (drop_bit 8 (rgb565_of p) AND 0xFF)]"

definition row_major :: "image \<Rightarrow> pixel list" where
  "row_major img = concat (map (\<lambda>y. map (\<lambda>x. pixels img (x, y)) [0..<32]) [0..<32])"

text \<open>A 32x32 image whose every pixel is opaque pure red, \<open>(255, 0, 0, 255)\<close>.\<close>

definition red32 :: image where
  "red32 = \<lparr>img_size = (32, 32), pixels = (\<lambda>_. (255, 0, 0, 255))\<rparr>"

text \<open>The colour channels of a pixel, without its alpha.\<close>

definition rgb_of :: "pixel \<Rightarrow> byte \<times> byte \<times> byte" where
  "rgb_of p = (case p of (r, g, b, a) \<Rightarrow> (r, g, b))"

text \<open>
  Modelled from the spec: the repository has no decoder, and the spec names the reference
  value of a decoded colour as "the same 5/6/5-bit truncation applied to the original
  directly". \<open>truncate_565\<close> keeps the top 5, 6 and 5 bits of R, G and B.
\<close>

definition truncate_565 :: "pixel \<Rightarrow> int \<times> int \<times> int" where
  "truncate_565 p = (case p of (r, g, b, a) \<Rightarrow>
     (drop_bit 3 (uint r), drop_bit 2 (uint g), drop_bit 3 (uint b)))"

text \<open>
  Modelled from the spec: the decoder of the packed blob, which the repository does not
  contain. It follows the layout of the spec's data model: a colour plane of one 16-bit
  little-endian value per pixel, row-major, with red in bits 11 to 15, green in bits 5 to
  10 and blue in bits 0 to 4, then an alpha plane of one byte per pixel, row-major. A blob
  that is not 3072 bytes long is rejected.
\<close>

definition decode_rgb565a8 ::
  "byte list \<Rightarrow> (nat \<times> nat \<Rightarrow> (int \<times> int \<times> int) \<times> byte) option" where
  "decode_rgb565a8 blob =
     (if length blob = 3072
      then Some (\<lambda>(x, y).
             let i = 32 * y + x;
                 c = uint (blob ! (2 * i)) + 256 * uint (blob ! (2 * i + 1))
             in ((drop_bit 11 c, take_bit 6 (drop_bit 5 c), take_bit 5 c), blob ! (2048 + i)))
      else None)"

text \<open>Two more test images: fully transparent red, and opaque blue.\<close>

definition clear_red32 :: image where
  "clear_red32 = \<lparr>img_size = (32, 32), pixels = (\<lambda>_. (255, 0, 0, 0))\<rparr>"

definition blue32 :: image where
  "blue32 = \<lparr>img_size = (32, 32), pixels = (\<lambda>_. (0, 0, 255, 255))\<rparr>"

subsection \<open>Textual emitter: \<open>generate_c_file\<close>\<close>

text \<open>\<open>sep.join(xs)\<close>.\<close>

fun join :: "string \<Rightarrow> string list \<Rightarrow> string" where
  "join sep [] = []"
| "join sep [x] = x"
| "join sep (x # y # ys) = x @ sep @ join sep (y # ys)"

text \<open>\<open>data[start:end]\<close> for \<open>0 <= start <= end\<close>: the slice is cut at the end of the data.\<close>

definition slice :: "'a list \<Rightarrow> nat \<Rightarrow> nat \<Rightarrow> 'a list" where
  "slice xs start end = take (end - start) (drop start xs)"

text \<open>\<open>f"0x{b:02x}"\<close> for a byte: two lower-case hexadecimal digits.\<close>

definition hex_digit :: "nat \<Rightarrow> char" where
  "hex_digit n = ''0123456789abcdef'' ! n"

definition hex_byte :: "byte \<Rightarrow> string" where
  "hex_byte b = ''0x'' @ [hex_digit (unat b div 16), hex_digit (unat b mod 16)]"

text \<open>\<open>str(n)\<close> for a length: decimal digits, no leading zero.\<close>

fun str_nat :: "nat \<Rightarrow> string" where
  "str_nat n = (if n < 10 then [hex_digit n] else str_nat (n div 10) @ [hex_digit (n mod 10)])"

text \<open>\<open>s.upper()\<close> on the ASCII strings the script uses (the code points of \<open>EMOJI_MAP\<close>).\<close>

definition upper_char :: "char \<Rightarrow> char" where
  "upper_char c =
     (let n = (of_char c :: nat) in if 97 \<le> n \<and> n \<le> 122 then char_of (n - 32) else c)"

definition upper :: "string \<Rightarrow> string" where
  "upper s = map upper_char s"

text \<open>One row of the array literal (lines 111 to 112 and 120 to 121).\<close>

definition data_row :: "byte list \<Rightarrow> string" where
  "data_row chunk = ''    '' @ join '','' (map hex_byte chunk) @ '',''"

text \<open>The list \<open>lines\<close> that \<open>generate_c_file\<close> builds, in the order of its appends.\<close>

definition c_file_lines :: "string \<Rightarrow> string \<Rightarrow> byte list \<Rightarrow> string list" where
  \<open>c_file_lines emotion_name unicode_cp data =
     (let var_name = ''emoji_'' @ unicode_cp @ ''_32'';
          attr_name = ''LV_ATTRIBUTE_EMOJI_'' @ upper unicode_cp @ ''_32'';
          alpha_offset = 32 * 32 * 2
      in
        ['''',
         ''#if defined(LV_LVGL_H_INCLUDE_SIMPLE)'',
         ''#include "lvgl.h"'',
         ''#elif defined(LV_BUILD_TEST)'',
         ''#include "../lvgl.h"'',
         ''#else'',
         ''#include "lvgl/lvgl.h"'',
         ''#endif'',
         '''',
         '''',
         ''#ifndef LV_ATTRIBUTE_MEM_ALIGN'',
         ''#define LV_ATTRIBUTE_MEM_ALIGN'',
         ''#endif'',
         '''',
         ''#ifndef '' @ attr_name,
         ''#define '' @ attr_name,
         ''#endif'',
         '''',
         ''static const'',
         ''LV_ATTRIBUTE_MEM_ALIGN LV_ATTRIBUTE_LARGE_CONST '' @ attr_name,
         ''uint8_t '' @ var_name @ ''_map[] = {'',
         '''']
        @ map (\<lambda>row. data_row (slice data (row * 64) (row * 64 + 64))) [0..<32]
        @ map (\<lambda>row. data_row (slice data (alpha_offset + row * 32) (alpha_offset + row * 32 + 32)))
            [0..<32]
        @ ['''',
           ''};'',
           '''',
           ''const lv_image_dsc_t '' @ var_name @ '' = {'',
           ''  .header.magic = LV_IMAGE_HEADER_MAGIC,'',
           ''  .header.cf = LV_COLOR_FORMAT_RGB565A8,'',
           ''  .header.flags = 0,'',
           ''  .header.w = 32,'',
           ''  .header.h = 32,'',
           ''  .header.stride = 64,'',
           ''  .data_size = '' @ str_nat (length data) @ '','',
           ''  .data = '' @ var_name @ ''_map,'',
           ''};'',
           ''''])\<close>

definition generate_c_file :: "string \<Rightarrow> string \<Rightarrow> byte list \<Rightarrow> string" where
  "generate_c_file emotion_name unicode_cp data =
     join [CHR 0x0A] (c_file_lines emotion_name unicode_cp data)"


subsection \<open>Batch driver: \<open>main\<close>\<close>

text \<open>The table \<open>EMOJI_MAP\<close>: emotion name and Unicode code point of its emoji.\<close>

definition EMOJI_MAP :: "(string \<times> string) list" where
  "EMOJI_MAP =
     [(''neutral'', ''1f636''), (''happy'', ''1f642''), (''laughing'', ''1f606''),
      (''funny'', ''1f602''), (''sad'', ''1f614''), (''angry'', ''1f620''),
      (''crying'', ''1f62d''), (''loving'', ''1f60d''), (''embarrassed'', ''1f633''),
      (''surprised'', ''1f62f''), (''shocked'', ''1f631''), (''thinking'', ''1f914''),
      (''winking'', ''1f609''), (''cool'', ''1f60e''), (''relaxed'', ''1f60c''),
      (''delicious'', ''1f924''), (''kissy'', ''1f618''), (''confident'', ''1f60f''),
      (''sleepy'', ''1f634''), (''silly'', ''1f61c''), (''confused'', ''1f644'')]"

text \<open>
  What the loop of \<open>main\<close> prints, one event per \<open>print\<close> call with the values it
  interpolates: a missing input, the start of a conversion, its end with the byte count,
  and the final count. The banner and the closing instructions are constant text and are
  left out.
\<close>

datatype event =
    Missing string
  | Started string string
  | Written nat
  | Summary nat nat

text \<open>
  The state the loop changes: the files of \<open>OUTPUT_DIR\<close> (name to text), the console
  and the counter \<open>converted\<close>.
\<close>

record driver_state =
  out_dir :: "string \<rightharpoonup> string"
  console :: "event list"
  converted :: nat

definition png_name :: "string \<Rightarrow> string" where
  "png_name emotion_name = emotion_name @ ''.png''"

definition c_name :: "string \<Rightarrow> string" where
  "c_name unicode_cp = ''emoji_'' @ unicode_cp @ ''_32.c''"

text \<open>
  The loop of lines 149 to 163 over the remaining items. A missing input is reported and
  skipped (\<open>continue\<close>). Nothing catches an exception of \<open>png_to_rgb565a8\<close>: it ends the
  loop and the run, leaving the state as it is at that point.
\<close>

fun convert_all ::
  "(string \<rightharpoonup> png_file) \<Rightarrow> (string \<times> string) list \<Rightarrow> driver_state \<Rightarrow> driver_state \<times> error option" where
  "convert_all fs [] st = (st, None)"
| "convert_all fs ((emotion_name, unicode_cp) # rest) st =
     (if fs (png_name emotion_name) = None
      then convert_all fs rest (st\<lparr>console := console st @ [Missing emotion_name]\<rparr>)
      else
        let st1 = st\<lparr>console := console st @ [Started emotion_name unicode_cp]\<rparr> in
        case png_to_rgb565a8 fs (png_name emotion_name) of
          Inl e \<Rightarrow> (st1, Some e)
        | Inr data \<Rightarrow>
            convert_all fs rest
              (st1\<lparr>out_dir := (out_dir st1)(c_name unicode_cp \<mapsto>
                               generate_c_file emotion_name unicode_cp data),
                   console := console st1 @ [Written (length data)],
                   converted := converted st1 + 1\<rparr>))"

text \<open>
  \<open>main()\<close>, from the input directory \<open>fs\<close> and the output directory as it was before
  the run. The second component is the exception that ended the run, if any.
\<close>

definition main :: "(string \<rightharpoonup> png_file) \<Rightarrow> (string \<rightharpoonup> string) \<Rightarrow> driver_state \<times> error option" where
  "main fs out0 =
     (case convert_all fs EMOJI_MAP \<lparr>out_dir = out0, console = [], converted = 0\<rparr> of
        (st, Some e) \<Rightarrow> (st, Some e)
      | (st, None) \<Rightarrow>
          (st\<lparr>console := console st @ [Summary (converted st) (length EMOJI_MAP)]\<rparr>, None))"

text \<open>The names reported as missing, in the order of the reports.\<close>

fun reported_missing :: "event list \<Rightarrow> string list" where
  "reported_missing [] = []"
| "reported_missing (Missing n # es) = n # reported_missing es"
| "reported_missing (e # es) = reported_missing es"

text \<open>An input that is present and decodes to a 32x32 image.\<close>

definition valid_input :: "(string \<rightharpoonup> png_file) \<Rightarrow> string \<Rightarrow> bool" where
  "valid_input fs emotion_name =
     (case fs (png_name emotion_name) of
        Some (Png img) \<Rightarrow> img_size img = (32, 32)
      | _ \<Rightarrow> False)"

text \<open>A 16x16 image, and directories for the examples.\<close>

definition small16 :: image where
  "small16 = \<lparr>img_size = (16, 16), pixels = (\<lambda>_. (255, 0, 0, 255))\<rparr>"

definition full_dir :: "string \<rightharpoonup> png_file" where
  "full_dir = (\<lambda>_. Some (Png red32))"

definition bad_dir :: "string \<rightharpoonup> png_file" where
  "bad_dir = full_dir(''neutral.png'' \<mapsto> Png small16)"

definition late_bad_dir :: "string \<rightharpoonup> png_file" where
  "late_bad_dir = full_dir(''laughing.png'' \<mapsto> Png small16, ''neutral.png'' := None)"

definition partial_dir :: "string \<rightharpoonup> png_file" where
  "partial_dir = full_dir(''sad.png'' := None, ''cool.png'' := None)"

text \<open>
  One pass of the loop body when it raises nothing, as a function on the state; used to
  describe the state the loop has reached after a prefix of the items.
\<close>

definition item_step :: "(string \<rightharpoonup> png_file) \<Rightarrow> string \<times> string \<Rightarrow> driver_state \<Rightarrow> driver_state" where
  "item_step fs item st =
     (case item of (emotion_name, unicode_cp) \<Rightarrow>
        if fs (png_name emotion_name) = None
        then st\<lparr>console := console st @ [Missing emotion_name]\<rparr>
        else
          case png_to_rgb565a8 fs (png_name emotion_name) of
            Inl e \<Rightarrow> st
          | Inr data \<Rightarrow>
              st\<lparr>out_dir := (out_dir st)(c_name unicode_cp \<mapsto>
                              generate_c_file emotion_name unicode_cp data),
                 console := console st @ [Started emotion_name unicode_cp, Written (length data)],
                 converted := converted st + 1\<rparr>)"

section \<open>The generation pipeline (generate\_emoji.py)\<close>

subsection \<open>Files and the run state\<close>

text \<open>
  A path is a directory and a file name (\<open>RAW_DIR / f"{emotion_name}.png"\<close>); the file
  system maps paths to contents. The contents are kept abstract (\<open>'b\<close>, the bytes of a
  file). The run state also records every path written, in order, and the counters of
  \<open>main\<close>.
\<close>

type_synonym path = "string \<times> string"

record 'b pipeline_state =
  files :: "path \<rightharpoonup> 'b"
  writes :: "path list"
  generated :: nat
  failed :: nat
  skipped :: nat
  processed :: nat

definition RAW_DIR :: string where
  "RAW_DIR = ''output/emoji_raw''"

definition FINAL_DIR :: string where
  "FINAL_DIR = ''output/emoji_32''"

definition PREVIEW_DIR :: string where
  "PREVIEW_DIR = ''output/emoji_preview''"

definition raw_path :: "string \<Rightarrow> path" where
  "raw_path emotion_name = (RAW_DIR, emotion_name @ ''.png'')"

definition final_path :: "string \<Rightarrow> path" where
  "final_path emotion_name = (FINAL_DIR, emotion_name @ ''.png'')"

text \<open>
  The names of the table \<open>EMOTIONS\<close>. Its other two columns (the emoji and the
  description) only enter the prompt and the messages.
\<close>

definition EMOTIONS :: "string list" where
  "EMOTIONS =
     [''neutral'', ''happy'', ''laughing'', ''funny'', ''sad'', ''angry'', ''crying'',
      ''loving'', ''embarrassed'', ''surprised'', ''shocked'', ''thinking'', ''winking'',
      ''cool'', ''relaxed'', ''delicious'', ''kissy'', ''confident'', ''sleepy'', ''silly'',
      ''confused'']"

text \<open>\<open>path.write_bytes(data)\<close> and \<open>img.save(path)\<close>: the file is created or replaced.\<close>

definition write_file :: "path \<Rightarrow> 'b \<Rightarrow> 'b pipeline_state \<Rightarrow> 'b pipeline_state" where
  "write_file p b st = st\<lparr>files := (files st)(p \<mapsto> b), writes := writes st @ [p]\<rparr>"

subsection \<open>Monochrome quantizer: \<open>process_to_monochrome_32\<close>\<close>





















text \<open>
  The function as a file operation. \<open>quantize\<close> stands for the whole image computation
  (decode, lines 162 to 183, encode as PNG): \<open>None\<close> when Pillow raises, else the bytes
  saved; \<open>enlarge\<close> gives the bytes of the 128x128 preview. The result is \<open>None\<close> when an
  exception leaves the function before anything is saved.
\<close>

definition process_to_monochrome_32 ::
  "('b \<Rightarrow> 'b option) \<Rightarrow> ('b \<Rightarrow> 'b) \<Rightarrow> path \<Rightarrow> path \<Rightarrow> 'b pipeline_state \<Rightarrow> 'b pipeline_state option" where
  "process_to_monochrome_32 quantize enlarge input_path output_path st =
     (case files st input_path of
        None \<Rightarrow> None
      | Some b \<Rightarrow>
          (case quantize b of
             None \<Rightarrow> None
           | Some q \<Rightarrow>
               Some (write_file (PREVIEW_DIR, snd output_path) (enlarge q)
                      (write_file output_path q st))))"

subsection \<open>The run: \<open>main\<close>\<close>

text \<open>
  \<open>gen_task\<close>: \<open>gen\<close> is the answer of the image service for an expression in this run,
  \<open>None\<close> when \<open>generate_single_emoji\<close> returns nothing (no image, an exception, or empty
  data). Only a successful task writes, and only its own raw file.
\<close>

definition gen_task :: "(string \<Rightarrow> 'b option) \<Rightarrow> string \<Rightarrow> 'b pipeline_state \<Rightarrow> 'b pipeline_state" where
  "gen_task gen emotion_name st =
     (case gen emotion_name of
        Some image_data \<Rightarrow>
          (write_file (raw_path emotion_name) image_data st)\<lparr>generated := generated st + 1\<rparr>
      | None \<Rightarrow> st\<lparr>failed := failed st + 1\<rparr>)"

text \<open>Lines 219 to 227: the expressions whose raw file does not exist yet.\<close>

definition todo :: "(path \<rightharpoonup> 'b) \<Rightarrow> string list" where
  "todo fs = filter (\<lambda>emotion_name. fs (raw_path emotion_name) = None) EMOTIONS"

text \<open>Lines 280 to 293: the body of the second loop, with its \<open>try\<close>/\<open>except\<close>.\<close>

definition process_item ::
  "('b \<Rightarrow> 'b option) \<Rightarrow> ('b \<Rightarrow> 'b) \<Rightarrow> string \<Rightarrow> 'b pipeline_state \<Rightarrow> 'b pipeline_state" where
  "process_item quantize enlarge emotion_name st =
     (if files st (raw_path emotion_name) = None then st
      else
        case process_to_monochrome_32 quantize enlarge (raw_path emotion_name)
               (final_path emotion_name) st of
          None \<Rightarrow> st
        | Some st' \<Rightarrow> st'\<lparr>processed := processed st' + 1\<rparr>)"

text \<open>
  \<open>main()\<close> on the file system \<open>fs\<close>. The tasks of the thread pool touch disjoint files
  (each its own raw file), so they are run here in the order of submission. The HTML
  preview page written at the end is left out.
\<close>

definition pipeline_main ::
  "(string \<Rightarrow> 'b option) \<Rightarrow> ('b \<Rightarrow> 'b option) \<Rightarrow> ('b \<Rightarrow> 'b) \<Rightarrow> (path \<rightharpoonup> 'b) \<Rightarrow> 'b pipeline_state" where
  "pipeline_main gen quantize enlarge fs =
     (let st0 = \<lparr>files = fs, writes = [], generated = 0, failed = 0,
                 skipped = length (filter (\<lambda>emotion_name. fs (raw_path emotion_name) \<noteq> None) EMOTIONS),
                 processed = 0\<rparr>;
          st1 = fold (gen_task gen) (todo fs) st0
      in fold (process_item quantize enlarge) EMOTIONS st1)"


text \<open>A small file system for the examples: \<open>neutral\<close> has its raw image and its bitmap.\<close>

definition demo_gen :: "string \<Rightarrow> string option" where
  "demo_gen emotion_name = None"

definition demo_quantize :: "string \<Rightarrow> string option" where
  "demo_quantize b = Some (''mono:'' @ b)"

definition demo_enlarge :: "string \<Rightarrow> string" where
  "demo_enlarge q = ''4x:'' @ q"

definition demo_fs :: "path \<rightharpoonup> string" where
  "demo_fs = [raw_path ''neutral'' \<mapsto> ''line art'', final_path ''neutral'' \<mapsto> ''mono:line art'']"

section \<open>Properties of the encoder\<close>

lemma for_each_total:
  "(\<And>x s. x \<in> set xs \<Longrightarrow> body x s = Inr (g x s)) \<Longrightarrow> for_each xs body s = Inr (fold g xs s)"
  by (induction xs arbitrary: s) simp_all

lemma byte_mask_range: "0 \<le> (v::int) AND 0xFF \<and> v AND 0xFF < 256"
  by (simp add: AND_upper2'')

lemma pixel_body_ok:
  assumes "img_size img = (32, 32)" "x < 32" "y < 32"
  shows "pixel_body img y x st =
           Inr (fst st @ color_pair (pixels img (x, y)), snd st @ [alpha_of (pixels img (x, y))])"
proof -
  obtain r g b a where p: "pixels img (x, y) = (r, g, b, a)"
    by (cases "pixels img (x, y)") auto
  have a: "0 \<le> uint a \<and> uint a < 256"
    using uint_lt2p [of a] by simp
  show ?thesis
    using assms a
    by (simp add: pixel_body_def getpixel_def bind_err_def bytearray_append_def p Let_def
        byte_mask_range color_pair_def rgb565_of_def alpha_of_def)
qed

lemma fold_inner:
  "fold (\<lambda>x st. (fst st @ f x, snd st @ [g x])) xs st =
     (fst st @ concat (map f xs), snd st @ map g xs)"
  by (induction xs arbitrary: st) simp_all

lemma fold_outer:
  "fold (\<lambda>y st. (fst st @ F y, snd st @ G y)) ys st =
     (fst st @ concat (map F ys), snd st @ concat (map G ys))"
  by (induction ys arbitrary: st) simp_all

lemma inner_loop_ok:
  assumes "img_size img = (32, 32)" "y < 32"
  shows "for_each [0..<32] (\<lambda>x. pixel_body img y x) st =
           Inr (fst st @ concat (map (\<lambda>x. color_pair (pixels img (x, y))) [0..<32]),
                snd st @ map (\<lambda>x. alpha_of (pixels img (x, y))) [0..<32])"
proof -
  have "for_each [0..<32] (\<lambda>x. pixel_body img y x) st =
          Inr (fold (\<lambda>x st. (fst st @ color_pair (pixels img (x, y)),
                              snd st @ [alpha_of (pixels img (x, y))])) [0..<32] st)"
    by (rule for_each_total) (simp add: pixel_body_ok assms)
  then show ?thesis by (simp only: fold_inner)
qed

lemma concat_map_concat:
  "concat (map f (concat xss)) = concat (map (\<lambda>xs. concat (map f xs)) xss)"
  by (induction xss) simp_all

lemma outer_loop_ok:
  assumes "img_size img = (32, 32)"
  shows "for_each [0..<32] (\<lambda>y. for_each [0..<32] (\<lambda>x. pixel_body img y x)) st =
           Inr (fst st @ concat (map color_pair (row_major img)),
                snd st @ map alpha_of (row_major img))"
proof -
  have "for_each [0..<32] (\<lambda>y. for_each [0..<32] (\<lambda>x. pixel_body img y x)) st =
          Inr (fold (\<lambda>y st. (fst st @ concat (map (\<lambda>x. color_pair (pixels img (x, y))) [0..<32]),
                snd st @ map (\<lambda>x. alpha_of (pixels img (x, y))) [0..<32])) [0..<32] st)"
    by (rule for_each_total) (simp add: inner_loop_ok assms)
  moreover have "concat (map color_pair (row_major img)) =
      concat (map (\<lambda>y. concat (map (\<lambda>x. color_pair (pixels img (x, y))) [0..<32])) [0..<32])"
    unfolding row_major_def by (simp add: concat_map_concat o_def)
  moreover have "map alpha_of (row_major img) =
      concat (map (\<lambda>y. map (\<lambda>x. alpha_of (pixels img (x, y))) [0..<32]) [0..<32])"
    unfolding row_major_def by (simp add: map_concat o_def)
  ultimately show ?thesis
    by (simp only: fold_outer)
qed

lemma encode_eq:
  assumes "fs p = Some (Png img)" "img_size img = (32, 32)"
  shows "png_to_rgb565a8 fs p =
           Inr (concat (map color_pair (row_major img)) @ map alpha_of (row_major img))"
  using assms by (simp add: png_to_rgb565a8_def outer_loop_ok bind_err_def)

lemma length_concat_rows:
  "length (concat (map (\<lambda>y. map (f y) [0..<n]) [0..<m])) = m * n"
  by (induction m) simp_all

lemma length_row_major: "length (row_major img) = 1024"
  unfolding row_major_def length_concat_rows by simp

lemma nth_concat_rows:
  "i < m \<Longrightarrow> j < n \<Longrightarrow> concat (map (\<lambda>y. map (f y) [0..<n]) [0..<m]) ! (i * n + j) = f i j"
proof (induction m)
  case 0
  then show ?case by simp
next
  case (Suc m)
  show ?case
  proof (cases "i < m")
    case True
    then have "Suc i * n \<le> m * n"
      by (intro mult_le_mono1) simp
    with Suc.prems(2) have "i * n + j < m * n" by simp
    with True Suc show ?thesis by (simp add: nth_append length_concat_rows)
  next
    case False
    with Suc.prems have "i = m" by simp
    with Suc.prems show ?thesis by (simp add: nth_append length_concat_rows)
  qed
qed

lemma nth_row_major:
  "x < 32 \<Longrightarrow> y < 32 \<Longrightarrow> row_major img ! (32 * y + x) = pixels img (x, y)"
  unfolding row_major_def
  using nth_concat_rows [of y 32 x 32 "\<lambda>y x. pixels img (x, y)"]
  by (simp only: mult.commute [of 32 y])

lemma length_color_plane: "length (concat (map color_pair pxs)) = 2 * length pxs"
  by (induction pxs) (simp_all add: color_pair_def)

lemma nth_color_plane:
  "i < length pxs \<Longrightarrow>
     concat (map color_pair pxs) ! (2 * i) = word_of_int (rgb565_of (pxs ! i) AND 0xFF) \<and>
     concat (map color_pair pxs) ! (2 * i + 1) = word_of_int (drop_bit 8 (rgb565_of (pxs ! i)) AND 0xFF)"
proof (induction pxs arbitrary: i)
  case Nil
  then show ?case by simp
next
  case (Cons p pxs)
  show ?case
  proof (cases i)
    case 0
    then show ?thesis by (simp add: color_pair_def)
  next
    case (Suc k)
    with Cons.prems have "k < length pxs" by simp
    from Cons.IH [OF this] Suc show ?thesis by (simp add: color_pair_def)
  qed
qed

lemma bit_drop_uint_byte:
  fixes w :: byte
  shows "bit (drop_bit k (uint w)) n \<Longrightarrow> n + k < 8"
  by (auto simp: bit_simps dest: bit_imp_le_length)

lemma rgb565_sum:
  fixes r g b :: byte
  shows "rgb565 (uint r) (uint g) (uint b) = 2048 * (uint r div 8) + 32 * (uint g div 4) + uint b div 8"
proof -
  let ?R = "drop_bit 3 (uint r)" and ?G = "drop_bit 2 (uint g)" and ?B = "drop_bit 3 (uint b)"
  have gb: "push_bit 5 ?G + ?B = push_bit 5 ?G OR ?B"
    by (rule disjunctive_add) (auto simp: bit_push_bit_iff dest!: bit_drop_uint_byte)
  have rgb: "push_bit 11 ?R + (push_bit 5 ?G OR ?B) = push_bit 11 ?R OR (push_bit 5 ?G OR ?B)"
    by (rule disjunctive_add) (auto simp: bit_push_bit_iff bit_or_iff dest!: bit_drop_uint_byte)
  have "rgb565 (uint r) (uint g) (uint b) = push_bit 11 ?R + (push_bit 5 ?G + ?B)"
    by (simp only: rgb565_def gb rgb or.assoc)
  then show ?thesis
    by (simp add: push_bit_eq_mult drop_bit_eq_div)
qed


lemma channel_div_bounds:
  fixes w :: byte
  shows "0 \<le> uint w div 8" "uint w div 8 < 32" "0 \<le> uint w div 4" "uint w div 4 < 64"
  using uint_lt2p [of w] by (simp_all add: pos_imp_zdiv_nonneg_iff)

lemma rgb565_range:
  fixes r g b :: byte
  shows "0 \<le> rgb565 (uint r) (uint g) (uint b) \<and> rgb565 (uint r) (uint g) (uint b) < 65536"
  unfolding rgb565_sum
  using channel_div_bounds [of r] channel_div_bounds [of g] channel_div_bounds [of b]
  by linarith

lemma pack_fields:
  fixes R G B :: int
  assumes "0 \<le> R" "0 \<le> G" "G < 64" "0 \<le> B" "B < 32"
  shows "(2048 * R + 32 * G + B) div 2048 = R"
    and "((2048 * R + 32 * G + B) div 32) mod 64 = G"
    and "(2048 * R + 32 * G + B) mod 32 = B"
proof -
  have e1: "2048 * R + 32 * G + B = (32 * G + B) + R * 2048" by simp
  have e2: "2048 * R + 32 * G + B = B + (64 * R + G) * 32" by simp
  have z1: "(32 * G + B) div 2048 = 0" using assms by (intro div_pos_pos_trivial) linarith+
  have z2: "B div 32 = 0" "B mod 32 = B" using assms by simp_all
  have "((32 * G + B) + R * 2048) div 2048 = R + (32 * G + B) div 2048"
    by (rule div_mult_self1) simp
  then show "(2048 * R + 32 * G + B) div 2048 = R" by (simp only: e1 z1 add_0_right)
  have "(B + (64 * R + G) * 32) mod 32 = B mod 32" by (rule mod_mult_self1)
  then show "(2048 * R + 32 * G + B) mod 32 = B" by (simp only: e2 z2)
  have d0: "(B + (64 * R + G) * 32) div 32 = (64 * R + G) + B div 32"
    by (rule div_mult_self1) simp
  have d: "(2048 * R + 32 * G + B) div 32 = G + R * 64"
    unfolding e2 d0 z2 by simp
  have m0: "(G + R * 64) mod 64 = G mod 64" by (rule mod_mult_self1)
  have "G mod 64 = G" using assms by simp
  then show "((2048 * R + 32 * G + B) div 32) mod 64 = G"
    unfolding d m0 .
qed

lemma shifts_as_div:
  fixes x :: int
  shows "drop_bit 11 x = x div 2048" "drop_bit 5 x = x div 32"
    "take_bit 6 x = x mod 64" "take_bit 5 x = x mod 32"
  by (simp_all add: drop_bit_eq_div take_bit_eq_mod)

lemma rgb565_fields:
  fixes r g b :: byte
  shows "drop_bit 11 (rgb565 (uint r) (uint g) (uint b)) = uint r div 8"
    and "take_bit 6 (drop_bit 5 (rgb565 (uint r) (uint g) (uint b))) = uint g div 4"
    and "take_bit 5 (rgb565 (uint r) (uint g) (uint b)) = uint b div 8"
proof -
  note pf = pack_fields [OF channel_div_bounds(1) [of r] channel_div_bounds(3,4) [of g]
      channel_div_bounds(1,2) [of b]]
  show "drop_bit 11 (rgb565 (uint r) (uint g) (uint b)) = uint r div 8"
    unfolding rgb565_sum shifts_as_div by (rule pf(1))
  show "take_bit 6 (drop_bit 5 (rgb565 (uint r) (uint g) (uint b))) = uint g div 4"
    unfolding rgb565_sum shifts_as_div by (rule pf(2))
  show "take_bit 5 (rgb565 (uint r) (uint g) (uint b)) = uint b div 8"
    unfolding rgb565_sum shifts_as_div by (rule pf(3))
qed


lemma and_255_mod: "(v::int) AND 255 = v mod 256"
proof -
  have "(255::int) = mask 8" by (simp add: mask_eq_exp_minus_1)
  then have "v AND 255 = take_bit 8 v" by (simp only: take_bit_eq_mask)
  then show ?thesis by (simp add: take_bit_eq_mod)
qed

lemma uint_byte_of_int: "0 \<le> v \<Longrightarrow> v < 256 \<Longrightarrow> uint (word_of_int v :: byte) = v"
  by (simp add: uint_word_of_int take_bit_eq_mod)

lemma bytes_of_rgb565:
  assumes "0 \<le> v" "v < 65536"
  shows "uint (word_of_int (v AND 0xFF) :: byte) + 256 * uint (word_of_int (drop_bit 8 v AND 0xFF) :: byte) = v"
proof -
  have h: "0 \<le> v div 256" "v div 256 < 256" using assms by simp_all
  have l: "0 \<le> v mod 256" "v mod 256 < 256" by simp_all
  have "drop_bit 8 v = v div 256" by (simp add: drop_bit_eq_div)
  then have hi: "drop_bit 8 v AND 0xFF = v div 256"
    using h by (simp only: and_255_mod) simp
  have lo: "v AND 0xFF = v mod 256" by (rule and_255_mod)
  show ?thesis
    unfolding hi lo uint_byte_of_int [OF h] uint_byte_of_int [OF l] by simp
qed


lemma pixel_index: "x < 32 \<Longrightarrow> y < 32 \<Longrightarrow> 32 * y + x < (1024::nat)"
  by simp

lemma blob_length:
  "length (concat (map color_pair (row_major img)) @ map alpha_of (row_major img)) = 3072"
  by (simp add: length_color_plane length_row_major)

lemma blob_color_nth:
  assumes "x < 32" "y < 32"
  shows "(concat (map color_pair (row_major img)) @ map alpha_of (row_major img)) ! (2 * (32 * y + x))
           = word_of_int (rgb565_of (pixels img (x, y)) AND 0xFF)"
    and "(concat (map color_pair (row_major img)) @ map alpha_of (row_major img)) ! (2 * (32 * y + x) + 1)
           = word_of_int (drop_bit 8 (rgb565_of (pixels img (x, y))) AND 0xFF)"
proof -
  have i: "32 * y + x < length (row_major img)"
    using assms by (simp add: length_row_major)
  have l: "2 * (32 * y + x) < length (concat (map color_pair (row_major img)))"
    "2 * (32 * y + x) + 1 < length (concat (map color_pair (row_major img)))"
    using assms by (simp_all add: length_color_plane length_row_major)
  show "(concat (map color_pair (row_major img)) @ map alpha_of (row_major img)) ! (2 * (32 * y + x))
           = word_of_int (rgb565_of (pixels img (x, y)) AND 0xFF)"
    using nth_color_plane [OF i] l(1) by (simp only: nth_append nth_row_major [OF assms] if_True)
  show "(concat (map color_pair (row_major img)) @ map alpha_of (row_major img)) ! (2 * (32 * y + x) + 1)
           = word_of_int (drop_bit 8 (rgb565_of (pixels img (x, y))) AND 0xFF)"
    using nth_color_plane [OF i] l(2) by (simp only: nth_append nth_row_major [OF assms] if_True)
qed

lemma blob_alpha_nth:
  assumes "x < 32" "y < 32"
  shows "(concat (map color_pair (row_major img)) @ map alpha_of (row_major img)) ! (2048 + (32 * y + x))
           = alpha_of (pixels img (x, y))"
proof -
  have i: "32 * y + x < length (row_major img)"
    using assms by (simp add: length_row_major)
  have l: "length (concat (map color_pair (row_major img))) = 2048"
    by (simp add: length_color_plane length_row_major)
  have "(concat (map color_pair (row_major img)) @ map alpha_of (row_major img)) ! (2048 + (32 * y + x))
          = map alpha_of (row_major img) ! (32 * y + x)"
    using nth_append_length_plus [of "concat (map color_pair (row_major img))"] by (simp only: l)
  also have "\<dots> = alpha_of (row_major img ! (32 * y + x))" using i by (rule nth_map)
  finally show ?thesis by (simp only: nth_row_major [OF assms])
qed

lemma blob_color_value:
  assumes "x < 32" "y < 32" "pixels img (x, y) = (r, g, b, a)"
  shows "uint ((concat (map color_pair (row_major img)) @ map alpha_of (row_major img)) ! (2 * (32 * y + x)))
         + 256 * uint ((concat (map color_pair (row_major img)) @ map alpha_of (row_major img)) ! (2 * (32 * y + x) + 1))
         = rgb565 (uint r) (uint g) (uint b)"
  unfolding blob_color_nth [OF assms(1,2)] assms(3) rgb565_of_def prod.case
  using rgb565_range [of r g b] by (intro bytes_of_rgb565) simp_all


text \<open>
  Claim C3. For a 32x32 RGBA image and each of its pixels \<open>(r, g, b, a)\<close>, the 16-bit
  colour value the encoder emits for the pixel (read back from its two bytes in the blob)
  is \<open>(r >> 3) << 11 | (g >> 2) << 5 | (b >> 3)\<close>: the channels are truncated, not rounded
  (\<open>r div 8\<close>, \<open>g div 4\<close>, \<open>b div 8\<close>), red lies in bits 11 to 15, green in bits 5 to 10 and
  blue in bits 0 to 4.
\<close>

theorem C3_color_value:
  assumes "fs p = Some (Png img)" "img_size img = (32, 32)"
    and "x < 32" "y < 32" "pixels img (x, y) = (r, g, b, a)"
  shows "\<exists>blob. png_to_rgb565a8 fs p = Inr blob \<and>
           (let v = uint (blob ! (2 * (32 * y + x))) + 256 * uint (blob ! (2 * (32 * y + x) + 1))
            in v = (push_bit 11 (drop_bit 3 (uint r)) OR push_bit 5 (drop_bit 2 (uint g))
                      OR drop_bit 3 (uint b))
             \<and> v = 2048 * (uint r div 8) + 32 * (uint g div 4) + uint b div 8
             \<and> drop_bit 11 v = uint r div 8
             \<and> take_bit 6 (drop_bit 5 v) = uint g div 4
             \<and> take_bit 5 v = uint b div 8)"
proof -
  let ?blob = "concat (map color_pair (row_major img)) @ map alpha_of (row_major img)"
  define v where "v = uint (?blob ! (2 * (32 * y + x))) + 256 * uint (?blob ! (2 * (32 * y + x) + 1))"
  have v: "v = rgb565 (uint r) (uint g) (uint b)"
    unfolding v_def using assms(3-5) by (rule blob_color_value)
  have enc: "png_to_rgb565a8 fs p = Inr ?blob"
    using assms(1,2) by (rule encode_eq)
  have 1: "v = (push_bit 11 (drop_bit 3 (uint r)) OR push_bit 5 (drop_bit 2 (uint g))
                  OR drop_bit 3 (uint b))"
    unfolding v by (simp only: rgb565_def)
  have 2: "v = 2048 * (uint r div 8) + 32 * (uint g div 4) + uint b div 8"
    unfolding v by (rule rgb565_sum)
  have 3: "drop_bit 11 v = uint r div 8" unfolding v by (rule rgb565_fields)
  have 4: "take_bit 6 (drop_bit 5 v) = uint g div 4" unfolding v by (rule rgb565_fields)
  have 5: "take_bit 5 v = uint b div 8" unfolding v by (rule rgb565_fields)
  from enc 1 2 3 4 5 show ?thesis
    unfolding Let_def v_def by blast
qed

text \<open>The theorem at the top-left pixel of the all-red image: the value is \<open>0xF800\<close>.\<close>

theorem C3_color_value_witness:
  "\<exists>blob. png_to_rgb565a8 (\<lambda>_. Some (Png red32)) ''happy.png'' = Inr blob \<and>
     uint (blob ! 0) + 256 * uint (blob ! 1) = 63488"
proof -
  have "pixels red32 (0, 0) = (255, 0, 0, 255)" "img_size red32 = (32, 32)"
    by (simp_all add: red32_def)
  from C3_color_value [of "\<lambda>_. Some (Png red32)" "''happy.png''" red32 0 0 255 0 0 255, OF refl this(2) _ _ this(1)]
  show ?thesis by (auto simp: Let_def)
qed

subsection \<open>The two planes\<close>

lemma take_drop_blob:
  "take 2048 (concat (map color_pair (row_major img)) @ map alpha_of (row_major img))
     = concat (map color_pair (row_major img))"
  "drop 2048 (concat (map color_pair (row_major img)) @ map alpha_of (row_major img))
     = map alpha_of (row_major img)"
  by (simp_all add: length_color_plane length_row_major)

text \<open>
  Claim C5. For every 32x32 RGBA image the blob is the whole colour plane followed by the
  whole alpha plane and is 3072 bytes long: its first 2048 bytes are the two colour bytes
  of each pixel in row-major order, its last 1024 bytes are the alpha bytes of the pixels
  in the same order; nothing is interleaved. (\<open>row_major img ! (32 * y + x)\<close> is the pixel
  at \<open>(x, y)\<close>.)
\<close>

theorem C5_planar_layout:
  assumes "fs p = Some (Png img)" "img_size img = (32, 32)"
  shows "\<exists>blob. png_to_rgb565a8 fs p = Inr blob \<and> length blob = 3072 \<and>
           take 2048 blob = concat (map color_pair (row_major img)) \<and>
           drop 2048 blob = map alpha_of (row_major img) \<and>
           length (row_major img) = 1024 \<and>
           (\<forall>y<32. \<forall>x<32. row_major img ! (32 * y + x) = pixels img (x, y))"
proof -
  let ?blob = "concat (map color_pair (row_major img)) @ map alpha_of (row_major img)"
  have "png_to_rgb565a8 fs p = Inr ?blob"
    using assms by (rule encode_eq)
  moreover have "length ?blob = 3072" by (rule blob_length)
  moreover note take_drop_blob [of img] length_row_major [of img]
  moreover have "\<forall>y<32. \<forall>x<32. row_major img ! (32 * y + x) = pixels img (x, y)"
    by (simp add: nth_row_major)
  ultimately show ?thesis by blast
qed

text \<open>The theorem on the all-red image.\<close>

theorem C5_planar_layout_witness:
  "\<exists>blob. png_to_rgb565a8 (\<lambda>_. Some (Png red32)) ''happy.png'' = Inr blob \<and> length blob = 3072 \<and>
     take 2048 blob = concat (map color_pair (row_major red32)) \<and>
     drop 2048 blob = map alpha_of (row_major red32) \<and>
     row_major red32 ! (32 * 31 + 31) = (255, 0, 0, 255)"
proof -
  have s: "img_size red32 = (32, 32)" by (simp add: red32_def)
  have p: "pixels red32 (31, 31) = (255, 0, 0, 255)" by (simp add: red32_def)
  from C5_planar_layout [of "\<lambda>_. Some (Png red32)" "''happy.png''" red32, OF refl s]
  obtain blob where b: "png_to_rgb565a8 (\<lambda>_. Some (Png red32)) ''happy.png'' = Inr blob"
    "length blob = 3072" "take 2048 blob = concat (map color_pair (row_major red32))"
    "drop 2048 blob = map alpha_of (row_major red32)"
    "\<forall>y<32. \<forall>x<32. row_major red32 ! (32 * y + x) = pixels red32 (x, y)"
    by blast
  have "row_major red32 ! (32 * 31 + 31) = pixels red32 (31, 31)"
    using b(5) [rule_format, of 31 31] by simp
  with b p show ?thesis by (intro exI [of _ blob]) simp
qed

lemma map_row_major_cong:
  assumes "\<forall>y<32. \<forall>x<32. f (pixels img1 (x, y)) = f (pixels img2 (x, y))"
  shows "map f (row_major img1) = map f (row_major img2)"
proof -
  have "map (\<lambda>y. map (\<lambda>x. f (pixels img1 (x, y))) [0..<32]) [0..<32]
      = map (\<lambda>y. map (\<lambda>x. f (pixels img2 (x, y))) [0..<32]) [0..<32]"
    using assms by (intro map_cong refl) simp
  then show ?thesis
    by (simp only: row_major_def map_concat map_map o_def)
qed

lemma color_pair_rgb: "color_pair p = color_pair q" if "rgb_of p = rgb_of q"
  using that by (cases p; cases q) (simp add: rgb_of_def color_pair_def rgb565_of_def)

text \<open>
  Claim C10. Two 32x32 images that agree on R, G, B at every pixel (whatever their alpha)
  encode to the same colour plane (first 2048 bytes); two that agree on alpha at every
  pixel (whatever their colour) encode to the same alpha plane (last 1024 bytes).
\<close>

theorem C10_plane_independence:
  assumes "fs1 p1 = Some (Png img1)" "img_size img1 = (32, 32)"
    and "fs2 p2 = Some (Png img2)" "img_size img2 = (32, 32)"
  shows "\<exists>blob1 blob2.
           png_to_rgb565a8 fs1 p1 = Inr blob1 \<and> png_to_rgb565a8 fs2 p2 = Inr blob2 \<and>
           ((\<forall>y<32. \<forall>x<32. rgb_of (pixels img1 (x, y)) = rgb_of (pixels img2 (x, y)))
              \<longrightarrow> take 2048 blob1 = take 2048 blob2) \<and>
           ((\<forall>y<32. \<forall>x<32. alpha_of (pixels img1 (x, y)) = alpha_of (pixels img2 (x, y)))
              \<longrightarrow> drop 2048 blob1 = drop 2048 blob2)"
proof -
  let ?blob = "\<lambda>img. concat (map color_pair (row_major img)) @ map alpha_of (row_major img)"
  have e1: "png_to_rgb565a8 fs1 p1 = Inr (?blob img1)" using assms(1,2) by (rule encode_eq)
  have e2: "png_to_rgb565a8 fs2 p2 = Inr (?blob img2)" using assms(3,4) by (rule encode_eq)
  have c: "take 2048 (?blob img1) = take 2048 (?blob img2)"
    if h: "\<forall>y<32. \<forall>x<32. rgb_of (pixels img1 (x, y)) = rgb_of (pixels img2 (x, y))"
  proof -
    from h have "\<forall>y<32. \<forall>x<32. color_pair (pixels img1 (x, y)) = color_pair (pixels img2 (x, y))"
      by (blast intro: color_pair_rgb)
    then have "map color_pair (row_major img1) = map color_pair (row_major img2)"
      by (rule map_row_major_cong)
    then show ?thesis unfolding take_drop_blob by (rule arg_cong)
  qed
  have a: "drop 2048 (?blob img1) = drop 2048 (?blob img2)"
    if h: "\<forall>y<32. \<forall>x<32. alpha_of (pixels img1 (x, y)) = alpha_of (pixels img2 (x, y))"
  proof -
    from h have "map alpha_of (row_major img1) = map alpha_of (row_major img2)"
      by (rule map_row_major_cong)
    then show ?thesis unfolding take_drop_blob .
  qed
  from e1 e2 c a show ?thesis by blast
qed

text \<open>
  Opaque red against fully transparent red: same colour plane. Opaque red against opaque
  blue: same alpha plane.
\<close>

theorem C10_plane_independence_witness:
  "(\<exists>blob1 blob2.
      png_to_rgb565a8 (\<lambda>_. Some (Png red32)) ''happy.png'' = Inr blob1 \<and>
      png_to_rgb565a8 (\<lambda>_. Some (Png clear_red32)) ''happy.png'' = Inr blob2 \<and>
      take 2048 blob1 = take 2048 blob2) \<and>
   (\<exists>blob1 blob2.
      png_to_rgb565a8 (\<lambda>_. Some (Png red32)) ''happy.png'' = Inr blob1 \<and>
      png_to_rgb565a8 (\<lambda>_. Some (Png blue32)) ''happy.png'' = Inr blob2 \<and>
      drop 2048 blob1 = drop 2048 blob2)"
proof -
  have s: "img_size red32 = (32, 32)" "img_size clear_red32 = (32, 32)" "img_size blue32 = (32, 32)"
    by (simp_all add: red32_def clear_red32_def blue32_def)
  have rgb: "\<forall>y<32. \<forall>x<32. rgb_of (pixels red32 (x, y)) = rgb_of (pixels clear_red32 (x, y))"
    by (simp add: red32_def clear_red32_def rgb_of_def)
  have al: "\<forall>y<32. \<forall>x<32. alpha_of (pixels red32 (x, y)) = alpha_of (pixels blue32 (x, y))"
    by (simp add: red32_def blue32_def alpha_of_def)
  from C10_plane_independence [of "\<lambda>_. Some (Png red32)" "''happy.png''" red32
      "\<lambda>_. Some (Png clear_red32)" "''happy.png''" clear_red32, OF refl s(1) refl s(2)] rgb
  have 1: "\<exists>blob1 blob2.
      png_to_rgb565a8 (\<lambda>_. Some (Png red32)) ''happy.png'' = Inr blob1 \<and>
      png_to_rgb565a8 (\<lambda>_. Some (Png clear_red32)) ''happy.png'' = Inr blob2 \<and>
      take 2048 blob1 = take 2048 blob2" by blast
  from C10_plane_independence [of "\<lambda>_. Some (Png red32)" "''happy.png''" red32
      "\<lambda>_. Some (Png blue32)" "''happy.png''" blue32, OF refl s(1) refl s(3)] al
  have 2: "\<exists>blob1 blob2.
      png_to_rgb565a8 (\<lambda>_. Some (Png red32)) ''happy.png'' = Inr blob1 \<and>
      png_to_rgb565a8 (\<lambda>_. Some (Png blue32)) ''happy.png'' = Inr blob2 \<and>
      drop 2048 blob1 = drop 2048 blob2" by blast
  from 1 2 show ?thesis by (rule conjI)
qed


subsection \<open>Byte order and the all-red image\<close>

lemma concat_replicate_replicate: "concat (replicate m (replicate n a)) = replicate (m * n) a"
  by (induction m) (simp_all add: replicate_add)

lemma row_major_const:
  assumes "\<forall>y<32. \<forall>x<32. pixels img (x, y) = c"
  shows "row_major img = replicate 1024 c"
proof -
  have "map (\<lambda>y. map (\<lambda>x. pixels img (x, y)) [0..<32]) [0..<32]
      = map (\<lambda>y. map (\<lambda>x. c) [0..<32]) [0..<32]"
    using assms by (intro map_cong refl) simp
  also have "\<dots> = replicate 32 (replicate 32 c)"
    by (simp only: map_replicate_const length_upt) simp
  finally show ?thesis
    by (simp only: row_major_def concat_replicate_replicate) simp
qed

lemma color_pair_red: "color_pair (255, 0, 0, 255) = [0x00, 0xF8]"
  by (simp add: color_pair_def rgb565_of_def rgb565_def)

lemma concat_map_replicate: "concat (map f (replicate n a)) = concat (replicate n (f a))"
  by simp

lemma rgb565_of_range: "0 \<le> rgb565_of p \<and> rgb565_of p < 65536"
  by (cases p) (simp add: rgb565_of_def rgb565_range)

lemma uint_lo_byte: "uint (word_of_int (v AND 0xFF) :: byte) = v mod 256"
  unfolding and_255_mod by (rule uint_byte_of_int) simp_all

lemma uint_hi_byte:
  assumes "0 \<le> v" "v < 65536"
  shows "uint (word_of_int (drop_bit 8 v AND 0xFF) :: byte) = v div 256"
proof -
  have h: "0 \<le> v div 256" "v div 256 < 256" using assms by simp_all
  have "drop_bit 8 v = v div 256" by (simp add: drop_bit_eq_div)
  then have "drop_bit 8 v AND 0xFF = v div 256"
    using h by (simp only: and_255_mod) simp
  then show ?thesis using h by (simp only: uint_byte_of_int)
qed


text \<open>
  Claim C6. Each 16-bit colour value is emitted low byte first: the byte at offset
  \<open>2 * (32 * y + x)\<close> is the value modulo 256 and the next byte is the value divided by
  256. For the image whose every pixel is \<open>(255, 0, 0, 255)\<close> the colour plane is 1024 times
  the pair \<open>0x00, 0xF8\<close> and the alpha plane is 1024 times \<open>0xFF\<close>.
\<close>

theorem C6_little_endian:
  assumes "fs p = Some (Png img)" "img_size img = (32, 32)"
  shows "\<exists>blob. png_to_rgb565a8 fs p = Inr blob \<and>
           (\<forall>y<32. \<forall>x<32.
              uint (blob ! (2 * (32 * y + x))) = rgb565_of (pixels img (x, y)) mod 256 \<and>
              uint (blob ! (2 * (32 * y + x) + 1)) = rgb565_of (pixels img (x, y)) div 256) \<and>
           ((\<forall>y<32. \<forall>x<32. pixels img (x, y) = (255, 0, 0, 255)) \<longrightarrow>
              take 2048 blob = concat (replicate 1024 [0x00, 0xF8]) \<and>
              drop 2048 blob = replicate 1024 0xFF)"
proof -
  let ?blob = "concat (map color_pair (row_major img)) @ map alpha_of (row_major img)"
  have enc: "png_to_rgb565a8 fs p = Inr ?blob"
    using assms by (rule encode_eq)
  have le: "uint (?blob ! (2 * (32 * y + x))) = rgb565_of (pixels img (x, y)) mod 256 \<and>
            uint (?blob ! (2 * (32 * y + x) + 1)) = rgb565_of (pixels img (x, y)) div 256"
    if "y < 32" "x < 32" for x y
  proof -
    have "uint (word_of_int (rgb565_of (pixels img (x, y)) AND 0xFF) :: byte)
            = rgb565_of (pixels img (x, y)) mod 256"
      by (rule uint_lo_byte)
    moreover have "uint (word_of_int (drop_bit 8 (rgb565_of (pixels img (x, y))) AND 0xFF) :: byte)
            = rgb565_of (pixels img (x, y)) div 256"
      using rgb565_of_range [of "pixels img (x, y)"] by (intro uint_hi_byte) simp_all
    ultimately show ?thesis
      unfolding blob_color_nth [OF that(2,1)] by (rule conjI)
  qed
  have red: "take 2048 ?blob = concat (replicate 1024 [0x00, 0xF8]) \<and>
             drop 2048 ?blob = replicate 1024 0xFF"
    if h: "\<forall>y<32. \<forall>x<32. pixels img (x, y) = (255, 0, 0, 255)"
  proof -
    have r: "row_major img = replicate 1024 (255, 0, 0, 255)"
      using h by (rule row_major_const)
    have "concat (map color_pair (row_major img)) = concat (replicate 1024 [0x00, 0xF8])"
      unfolding r by (simp only: concat_map_replicate color_pair_red)
    moreover have "map alpha_of (row_major img) = replicate 1024 0xFF"
      unfolding r by (simp only: map_replicate alpha_of_def prod.case)
    ultimately show ?thesis
      unfolding take_drop_blob by (rule conjI)

  qed
  from enc le red show ?thesis by blast
qed

text \<open>The whole blob of the all-red image.\<close>

theorem C6_little_endian_witness:
  "png_to_rgb565a8 (\<lambda>_. Some (Png red32)) ''happy.png''
     = Inr (concat (replicate 1024 [0x00, 0xF8]) @ replicate 1024 0xFF)"
proof -
  have s: "img_size red32 = (32, 32)" by (simp add: red32_def)
  have h: "\<forall>y<32. \<forall>x<32. pixels red32 (x, y) = (255, 0, 0, 255)" by (simp add: red32_def)
  from C6_little_endian [of "\<lambda>_. Some (Png red32)" "''happy.png''" red32, OF refl s] h
  obtain blob where b: "png_to_rgb565a8 (\<lambda>_. Some (Png red32)) ''happy.png'' = Inr blob"
    "take 2048 blob = concat (replicate 1024 [0x00, 0xF8])"
    "drop 2048 blob = replicate 1024 0xFF"
    by blast
  have "blob = take 2048 blob @ drop 2048 blob" by simp
  with b show ?thesis by (simp only:)
qed

text \<open>
  Claim C4. Decoding the blob of a 32x32 image by the documented layout gives back, at
  every pixel, the alpha byte unchanged and the colour fields equal to the 5/6/5-bit
  truncation of the original R, G and B.
\<close>

theorem C4_decode_roundtrip:
  assumes "fs p = Some (Png img)" "img_size img = (32, 32)"
  shows "\<exists>blob dec. png_to_rgb565a8 fs p = Inr blob \<and> decode_rgb565a8 blob = Some dec \<and>
           (\<forall>y<32. \<forall>x<32.
              dec (x, y) = (truncate_565 (pixels img (x, y)), alpha_of (pixels img (x, y))))"
proof -
  let ?blob = "concat (map color_pair (row_major img)) @ map alpha_of (row_major img)"
  let ?dec = "\<lambda>(x, y).
             let i = 32 * y + x;
                 c = uint (?blob ! (2 * i)) + 256 * uint (?blob ! (2 * i + 1))
             in ((drop_bit 11 c, take_bit 6 (drop_bit 5 c), take_bit 5 c), ?blob ! (2048 + i))"
  have enc: "png_to_rgb565a8 fs p = Inr ?blob"
    using assms by (rule encode_eq)
  have dec: "decode_rgb565a8 ?blob = Some ?dec"
    unfolding decode_rgb565a8_def blob_length by (rule if_P) (rule refl)
  have px: "?dec (x, y) = (truncate_565 (pixels img (x, y)), alpha_of (pixels img (x, y)))"
    if "y < 32" "x < 32" for x y
  proof -
    obtain r g b a where q: "pixels img (x, y) = (r, g, b, a)"
      by (cases "pixels img (x, y)") auto
    have c: "uint (?blob ! (2 * (32 * y + x))) + 256 * uint (?blob ! (2 * (32 * y + x) + 1))
               = rgb565 (uint r) (uint g) (uint b)"
      using that(2,1) q by (rule blob_color_value)
    have al: "?blob ! (2048 + (32 * y + x)) = a"
      unfolding blob_alpha_nth [OF that(2,1)] q by (simp add: alpha_of_def)
    show ?thesis
      unfolding prod.case Let_def c al q truncate_565_def alpha_of_def
      by (simp only: rgb565_fields) (simp add: drop_bit_eq_div)
  qed
  from enc dec px show ?thesis by blast
qed

text \<open>The pixel at \<open>(5, 7)\<close> of the all-red image decodes to \<open>(31, 0, 0)\<close> with alpha 255.\<close>

theorem C4_decode_roundtrip_witness:
  "\<exists>blob dec. png_to_rgb565a8 (\<lambda>_. Some (Png red32)) ''happy.png'' = Inr blob \<and>
     decode_rgb565a8 blob = Some dec \<and> dec (5, 7) = ((31, 0, 0), 255)"
proof -
  have s: "img_size red32 = (32, 32)" by (simp add: red32_def)
  have t: "truncate_565 (pixels red32 (5, 7)) = (31, 0, 0)" "alpha_of (pixels red32 (5, 7)) = 255"
    by (simp_all add: red32_def truncate_565_def alpha_of_def drop_bit_eq_div)
  from C4_decode_roundtrip [of "\<lambda>_. Some (Png red32)" "''happy.png''" red32, OF refl s]
  obtain blob dec where b: "png_to_rgb565a8 (\<lambda>_. Some (Png red32)) ''happy.png'' = Inr blob"
    "decode_rgb565a8 blob = Some dec"
    "\<forall>y<32. \<forall>x<32. dec (x, y) = (truncate_565 (pixels red32 (x, y)), alpha_of (pixels red32 (x, y)))"
    by blast
  from b(3) [rule_format, of 7 5] have "dec (5, 7) = ((31, 0, 0), 255)"
    unfolding t by simp
  with b(1,2) show ?thesis by blast
qed

section \<open>Properties of the textual emitter\<close>

lemma join_then_sep:
  "xs \<noteq> [] \<Longrightarrow> join sep xs @ sep = concat (map (\<lambda>x. x @ sep) xs)"
  by (induction sep xs rule: join.induct) simp_all

lemma slice_nth:
  assumes "s + n \<le> length xs"
  shows "slice xs s (s + n) = map (\<lambda>j. xs ! (s + j)) [0..<n]"
proof (rule nth_equalityI)
  show "length (slice xs s (s + n)) = length (map (\<lambda>j. xs ! (s + j)) [0..<n])"
    using assms by (simp add: slice_def)
  fix i assume "i < length (slice xs s (s + n))"
  then have "i < n" by (simp add: slice_def)
  then show "slice xs s (s + n) ! i = map (\<lambda>j. xs ! (s + j)) [0..<n] ! i"
    using assms by (simp add: slice_def)
qed

lemma data_row_full:
  assumes "s + n \<le> length data" "0 < n"
  shows "data_row (slice data s (s + n))
           = ''    '' @ concat (map (\<lambda>j. hex_byte (data ! (s + j)) @ '','') [0..<n])"
proof -
  have ne: "map hex_byte (map (\<lambda>j. data ! (s + j)) [0..<n]) \<noteq> []"
    using assms(2) by simp
  have "data_row (slice data s (s + n))
          = ''    '' @ (join '','' (map hex_byte (map (\<lambda>j. data ! (s + j)) [0..<n])) @ '','')"
    unfolding data_row_def slice_nth [OF assms(1)] by simp
  also have "\<dots> = ''    '' @ concat (map (\<lambda>x. x @ '','') (map hex_byte (map (\<lambda>j. data ! (s + j)) [0..<n])))"
    by (simp only: join_then_sep [OF ne])
  finally show ?thesis by (simp only: map_map o_def)
qed

lemma length_c_file_lines: "length (c_file_lines emotion_name unicode_cp data) = 100"
  by (simp add: c_file_lines_def Let_def)

lemma c_file_lines_color_row:
  assumes "row < 32"
  shows "c_file_lines emotion_name unicode_cp data ! (22 + row)
           = data_row (slice data (row * 64) (row * 64 + 64))"
  using assms by (simp add: c_file_lines_def Let_def nth_append)

lemma c_file_lines_alpha_row:
  assumes "row < 32"
  shows "c_file_lines emotion_name unicode_cp data ! (54 + row)
           = data_row (slice data (2048 + row * 32) (2048 + row * 32 + 32))"
  using assms by (simp add: c_file_lines_def Let_def nth_append)

lemma c_file_lines_fixed:
  "c_file_lines emotion_name unicode_cp data ! 20 = ''uint8_t emoji_'' @ unicode_cp @ ''_32_map[] = {''"
  "c_file_lines emotion_name unicode_cp data ! 21 = []"
  "c_file_lines emotion_name unicode_cp data ! 86 = []"
  "c_file_lines emotion_name unicode_cp data ! 87 = ''};''"
  "c_file_lines emotion_name unicode_cp data ! 89 = ''const lv_image_dsc_t emoji_'' @ unicode_cp @ ''_32 = {''"
  "c_file_lines emotion_name unicode_cp data ! 91 = ''  .header.cf = LV_COLOR_FORMAT_RGB565A8,''"
  "c_file_lines emotion_name unicode_cp data ! 93 = ''  .header.w = 32,''"
  "c_file_lines emotion_name unicode_cp data ! 94 = ''  .header.h = 32,''"
  "c_file_lines emotion_name unicode_cp data ! 95 = ''  .header.stride = 64,''"
  "c_file_lines emotion_name unicode_cp data ! 96 = ''  .data_size = '' @ str_nat (length data) @ '',''"
  "c_file_lines emotion_name unicode_cp data ! 97 = ''  .data = emoji_'' @ unicode_cp @ ''_32_map,''"
  by (simp_all add: c_file_lines_def Let_def nth_append)

lemma str_nat_3072: "str_nat 3072 = ''3072''"
  by (simp add: hex_digit_def)


text \<open>
  Claim C8. For a blob of 3072 bytes and any name, the emitted text is the join of 100
  lines in which the array literal holds first 32 colour rows, row \<open>r\<close> listing the 64
  bytes \<open>data[64 r .. 64 r + 63]\<close>, then 32 alpha rows, row \<open>r\<close> listing the 32 bytes
  \<open>data[2048 + 32 r .. 2048 + 32 r + 31]\<close>, each byte as a hexadecimal token followed by a
  comma; the metadata record names the format \<open>LV_COLOR_FORMAT_RGB565A8\<close>, width 32,
  height 32, stride 64, the data size 3072 (the blob's length) and the array
  \<open>emoji_<name>_32_map\<close>.
\<close>

theorem C8_emitter_rows_and_metadata:
  assumes "length data = 3072"
  shows "\<exists>ls. generate_c_file emotion_name unicode_cp data = join [CHR 0x0A] ls \<and>
           length ls = 100 \<and>
           ls ! 20 = ''uint8_t emoji_'' @ unicode_cp @ ''_32_map[] = {'' \<and>
           ls ! 21 = [] \<and>
           (\<forall>row<32. ls ! (22 + row) =
              ''    '' @ concat (map (\<lambda>j. hex_byte (data ! (row * 64 + j)) @ '','') [0..<64])) \<and>
           (\<forall>row<32. ls ! (54 + row) =
              ''    '' @ concat (map (\<lambda>j. hex_byte (data ! (2048 + row * 32 + j)) @ '','') [0..<32])) \<and>
           ls ! 86 = [] \<and>
           ls ! 87 = ''};'' \<and>
           ls ! 89 = ''const lv_image_dsc_t emoji_'' @ unicode_cp @ ''_32 = {'' \<and>
           ls ! 91 = ''  .header.cf = LV_COLOR_FORMAT_RGB565A8,'' \<and>
           ls ! 93 = ''  .header.w = 32,'' \<and>
           ls ! 94 = ''  .header.h = 32,'' \<and>
           ls ! 95 = ''  .header.stride = 64,'' \<and>
           ls ! 96 = ''  .data_size = 3072,'' \<and>
           ls ! 97 = ''  .data = emoji_'' @ unicode_cp @ ''_32_map,''"
proof -
  let ?ls = "c_file_lines emotion_name unicode_cp data"
  have color: "?ls ! (22 + row) =
      ''    '' @ concat (map (\<lambda>j. hex_byte (data ! (row * 64 + j)) @ '','') [0..<64])"
    if "row < 32" for row
  proof -
    from that have "row * 64 + 64 \<le> length data" using assms by simp
    then show ?thesis
      unfolding c_file_lines_color_row [OF that] by (rule data_row_full) simp
  qed
  have alpha: "?ls ! (54 + row) =
      ''    '' @ concat (map (\<lambda>j. hex_byte (data ! (2048 + row * 32 + j)) @ '','') [0..<32])"
    if "row < 32" for row
  proof -
    from that have "(2048 + row * 32) + 32 \<le> length data" using assms by simp
    then show ?thesis
      unfolding c_file_lines_alpha_row [OF that] by (rule data_row_full) simp
  qed
  have size: "?ls ! 96 = ''  .data_size = 3072,''"
    unfolding c_file_lines_fixed assms str_nat_3072 by simp
  have "generate_c_file emotion_name unicode_cp data = join [CHR 0x0A] ?ls"
    by (simp only: generate_c_file_def)
  with color alpha size length_c_file_lines [of emotion_name unicode_cp data]
    c_file_lines_fixed(1-9,11) [of emotion_name unicode_cp data]
  show ?thesis by blast
qed

text \<open>The theorem on a blob of 3072 bytes \<open>0xF8\<close>: first colour row, last alpha row, size.\<close>

theorem C8_emitter_rows_and_metadata_witness:
  "\<exists>ls. generate_c_file ''happy'' ''1f642'' (replicate 3072 0xF8) = join [CHR 0x0A] ls \<and>
     length ls = 100 \<and>
     ls ! 22 = ''    '' @ concat (replicate 64 ''0xf8,'') \<and>
     ls ! 85 = ''    '' @ concat (replicate 32 ''0xf8,'') \<and>
     ls ! 96 = ''  .data_size = 3072,'' \<and>
     ls ! 97 = ''  .data = emoji_1f642_32_map,''"
proof -
  have l: "length (replicate 3072 (0xF8 :: byte)) = 3072" by simp
  from C8_emitter_rows_and_metadata [OF l, of "''happy''" "''1f642''"]
  obtain ls where ls: "generate_c_file ''happy'' ''1f642'' (replicate 3072 0xF8) = join [CHR 0x0A] ls"
    "length ls = 100"
    "\<forall>row<32. ls ! (22 + row) =
       ''    '' @ concat (map (\<lambda>j. hex_byte (replicate 3072 0xF8 ! (row * 64 + j)) @ '','') [0..<64])"
    "\<forall>row<32. ls ! (54 + row) =
       ''    '' @ concat (map (\<lambda>j. hex_byte (replicate 3072 0xF8 ! (2048 + row * 32 + j)) @ '','') [0..<32])"
    "ls ! 96 = ''  .data_size = 3072,''"
    "ls ! 97 = ''  .data = emoji_'' @ ''1f642'' @ ''_32_map,''"
    by blast
  have h: "hex_byte 0xF8 = ''0xf8''" by (simp add: hex_byte_def hex_digit_def)
  have "map (\<lambda>j. hex_byte (replicate 3072 0xF8 ! (0 * 64 + j)) @ '','') [0..<64]
          = map (\<lambda>j. ''0xf8,'') [0..<64]"
    by (intro map_cong refl) (simp add: h)
  then have 1: "ls ! 22 = ''    '' @ concat (replicate 64 ''0xf8,'')"
    using ls(3) [rule_format, of 0] by (simp only: map_replicate_const) simp
  have "map (\<lambda>j. hex_byte (replicate 3072 0xF8 ! (2048 + 31 * 32 + j)) @ '','') [0..<32]
          = map (\<lambda>j. ''0xf8,'') [0..<32]"
    by (intro map_cong refl) (simp add: h)
  then have 2: "ls ! 85 = ''    '' @ concat (replicate 32 ''0xf8,'')"
    using ls(4) [rule_format, of 31] by (simp only: map_replicate_const) simp
  from ls(1,2,5,6) 1 2 show ?thesis by (intro exI [of _ ls]) simp
qed

section \<open>Properties of the batch driver\<close>

lemma length_EMOJI_MAP: "length EMOJI_MAP = 21"
  by (simp add: EMOJI_MAP_def)

lemma distinct_codepoints: "distinct (map snd EMOJI_MAP)"
  by (simp add: EMOJI_MAP_def)

lemma distinct_names: "distinct (map fst EMOJI_MAP)"
  by (simp add: EMOJI_MAP_def)

lemma c_name_inj: "c_name a = c_name b \<longleftrightarrow> a = b"
  by (simp add: c_name_def)


lemma valid_input_encodes:
  assumes "valid_input fs n"
  shows "\<exists>data. png_to_rgb565a8 fs (png_name n) = Inr data \<and> length data = 3072"
proof -
  from assms obtain img where "fs (png_name n) = Some (Png img)" "img_size img = (32, 32)"
    unfolding valid_input_def by (cases "fs (png_name n)"; simp split: png_file.split_asm)
  then have "png_to_rgb565a8 fs (png_name n)
      = Inr (concat (map color_pair (row_major img)) @ map alpha_of (row_major img))"
    by (rule encode_eq)
  then show ?thesis using blob_length [of img] by blast
qed

lemma valid_input_present: "valid_input fs n \<Longrightarrow> fs (png_name n) \<noteq> None"
  unfolding valid_input_def by (cases "fs (png_name n)") simp_all

lemma convert_all_missing:
  assumes "fs (png_name n) = None"
  shows "convert_all fs ((n, c) # rest) st
           = convert_all fs rest (st\<lparr>console := console st @ [Missing n]\<rparr>)"
  using assms by simp

lemma convert_all_written:
  assumes "fs (png_name n) = Some f" "png_to_rgb565a8 fs (png_name n) = Inr data"
  shows "convert_all fs ((n, c) # rest) st
           = convert_all fs rest
               (st\<lparr>out_dir := (out_dir st)(c_name c \<mapsto> generate_c_file n c data),
                   console := console st @ [Started n c, Written (length data)],
                   converted := converted st + 1\<rparr>)"
  using assms by (simp add: Let_def)

lemma convert_all_raises:
  assumes "fs (png_name n) = Some f" "png_to_rgb565a8 fs (png_name n) = Inl e"
  shows "convert_all fs ((n, c) # rest) st
           = (st\<lparr>console := console st @ [Started n c]\<rparr>, Some e)"
  using assms by (simp add: Let_def)

lemma item_step_missing:
  assumes "fs (png_name n) = None"
  shows "item_step fs (n, c) st = st\<lparr>console := console st @ [Missing n]\<rparr>"
  using assms by (simp add: item_step_def)

lemma item_step_written:
  assumes "fs (png_name n) = Some f" "png_to_rgb565a8 fs (png_name n) = Inr data"
  shows "item_step fs (n, c) st
           = st\<lparr>out_dir := (out_dir st)(c_name c \<mapsto> generate_c_file n c data),
                 console := console st @ [Started n c, Written (length data)],
                 converted := converted st + 1\<rparr>"
  using assms by (simp add: item_step_def)

lemma valid_item_cases:
  assumes "fs (png_name n) = None \<or> valid_input fs n"
  obtains (missing) "fs (png_name n) = None"
    | (present) f data where "fs (png_name n) = Some f" "png_to_rgb565a8 fs (png_name n) = Inr data"
      "length data = 3072"
proof (cases "fs (png_name n)")
  case None
  then show ?thesis by (rule missing)
next
  case (Some f)
  with assms have "valid_input fs n" by simp
  then obtain data where "png_to_rgb565a8 fs (png_name n) = Inr data" "length data = 3072"
    using valid_input_encodes by blast
  with Some show ?thesis by (rule present)
qed

lemma convert_all_prefix:
  assumes "\<forall>(n, c)\<in>set pre. fs (png_name n) = None \<or> valid_input fs n"
  shows "convert_all fs (pre @ rest) st = convert_all fs rest (fold (item_step fs) pre st)"
  using assms
proof (induction pre arbitrary: st)
  case Nil
  then show ?case by simp
next
  case (Cons item pre)
  obtain n c where item: "item = (n, c)" by (cases item)
  from Cons.prems have rest: "\<forall>(n, c)\<in>set pre. fs (png_name n) = None \<or> valid_input fs n"
    by simp
  from Cons.prems item have "fs (png_name n) = None \<or> valid_input fs n" by simp
  then show ?case
  proof (cases rule: valid_item_cases)
    case missing
    show ?thesis
      unfolding item append_Cons fold_Cons comp_apply
        convert_all_missing [of fs n, OF missing] item_step_missing [of fs n, OF missing]
      by (rule Cons.IH [OF rest])
  next
    case (present f data)
    show ?thesis
      unfolding item append_Cons fold_Cons comp_apply
        convert_all_written [of fs n, OF present(1,2)] item_step_written [of fs n, OF present(1,2)]
      by (rule Cons.IH [OF rest])
  qed
qed

lemma convert_all_valid:
  assumes "\<forall>(n, c)\<in>set items. fs (png_name n) = None \<or> valid_input fs n"
  shows "convert_all fs items st = (fold (item_step fs) items st, None)"
  using convert_all_prefix [OF assms, of "[]" st] by simp

lemma reported_missing_append:
  "reported_missing (xs @ ys) = reported_missing xs @ reported_missing ys"
  by (induction xs rule: reported_missing.induct) simp_all

lemma fold_step_missing:
  assumes "\<forall>(n, c)\<in>set items. fs (png_name n) = None \<or> valid_input fs n"
  shows "reported_missing (console (fold (item_step fs) items st))
     = reported_missing (console st) @ map fst (filter (\<lambda>(n, c). fs (png_name n) = None) items)"
  using assms
proof (induction items arbitrary: st)
  case Nil
  then show ?case by simp
next
  case (Cons item items)
  obtain n c where item: "item = (n, c)" by (cases item)
  from Cons.prems have rest: "\<forall>(n, c)\<in>set items. fs (png_name n) = None \<or> valid_input fs n"
    by simp
  from Cons.prems item have "fs (png_name n) = None \<or> valid_input fs n" by simp
  then show ?case
  proof (cases rule: valid_item_cases)
    case missing
    then show ?thesis
      by (simp add: item item_step_missing Cons.IH [OF rest] reported_missing_append)
  next
    case (present f data)
    then show ?thesis
      by (simp add: item item_step_written [of fs n, OF present(1,2)] Cons.IH [OF rest]
          reported_missing_append)
  qed
qed

lemma fold_step_converted:
  assumes "\<forall>(n, c)\<in>set items. fs (png_name n) = None \<or> valid_input fs n"
  shows "converted (fold (item_step fs) items st)
     = converted st + length (filter (\<lambda>(n, c). fs (png_name n) \<noteq> None) items)"
  using assms
proof (induction items arbitrary: st)
  case Nil
  then show ?case by simp
next
  case (Cons item items)
  obtain n c where item: "item = (n, c)" by (cases item)
  from Cons.prems have rest: "\<forall>(n, c)\<in>set items. fs (png_name n) = None \<or> valid_input fs n"
    by simp
  from Cons.prems item have "fs (png_name n) = None \<or> valid_input fs n" by simp
  then show ?case
  proof (cases rule: valid_item_cases)
    case missing
    then show ?thesis
      by (simp add: item item_step_missing Cons.IH [OF rest])
  next
    case (present f data)
    then show ?thesis
      by (simp add: item item_step_written [of fs n, OF present(1,2)] Cons.IH [OF rest])
  qed
qed

lemma item_step_untouched:
  assumes "fs (png_name n) = None \<or> q \<noteq> c_name c"
  shows "out_dir (item_step fs (n, c) st) q = out_dir st q"
  using assms by (cases "png_to_rgb565a8 fs (png_name n)") (auto simp: item_step_def)

lemma fold_step_untouched:
  assumes "q \<notin> c_name ` snd ` set (filter (\<lambda>(n, c). fs (png_name n) \<noteq> None) items)"
  shows "out_dir (fold (item_step fs) items st) q = out_dir st q"
  using assms
proof (induction items arbitrary: st)
  case Nil
  then show ?case by simp
next
  case (Cons item items)
  obtain n c where item: "item = (n, c)" by (cases item)
  from Cons.prems item have 1: "fs (png_name n) = None \<or> q \<noteq> c_name c"
    by (cases "fs (png_name n) = None") auto
  from Cons.prems item
  have 2: "q \<notin> c_name ` snd ` set (filter (\<lambda>(n, c). fs (png_name n) \<noteq> None) items)"
    by (cases "fs (png_name n) = None") auto
  show ?case
    unfolding item fold_Cons comp_apply Cons.IH [OF 2] by (rule item_step_untouched [of fs n q c, OF 1])
qed

lemma fold_step_written:
  assumes "distinct (map snd items)" "(n, c) \<in> set items"
    and "fs (png_name n) = Some f" "png_to_rgb565a8 fs (png_name n) = Inr data"
  shows "out_dir (fold (item_step fs) items st) (c_name c) = Some (generate_c_file n c data)"
  using assms(1,2)
proof (induction items arbitrary: st)
  case Nil
  then show ?case by simp
next
  case (Cons item items)
  show ?case
  proof (cases "item = (n, c)")
    case True
    from Cons.prems(1) True have "c \<notin> snd ` set items" by simp
    then have "c_name c \<notin> c_name ` snd ` set (filter (\<lambda>(n, c). fs (png_name n) \<noteq> None) items)"
      by (force simp: c_name_inj)
    then show ?thesis
      unfolding True fold_Cons comp_apply
      by (simp add: fold_step_untouched item_step_written [of fs n, OF assms(3,4)])
  next
    case False
    with Cons.prems have "(n, c) \<in> set items" "distinct (map snd items)" by simp_all
    then show ?thesis
      unfolding fold_Cons comp_apply by (rule Cons.IH [rotated])
  qed
qed

lemma same_codepoint_same_name:
  "distinct (map snd xs) \<Longrightarrow> (a, c) \<in> set xs \<Longrightarrow> (b, c) \<in> set xs \<Longrightarrow> a = b"
  by (induction xs) (auto simp: image_iff)


lemma main_valid:
  assumes "\<forall>(n, c)\<in>set EMOJI_MAP. fs (png_name n) = None \<or> valid_input fs n"
  shows "main fs out0 =
     ((fold (item_step fs) EMOJI_MAP \<lparr>out_dir = out0, console = [], converted = 0\<rparr>)
        \<lparr>console := console (fold (item_step fs) EMOJI_MAP \<lparr>out_dir = out0, console = [], converted = 0\<rparr>)
            @ [Summary (converted (fold (item_step fs) EMOJI_MAP
                 \<lparr>out_dir = out0, console = [], converted = 0\<rparr>)) (length EMOJI_MAP)]\<rparr>,
      None)"
  unfolding main_def convert_all_valid [OF assms] by simp

text \<open>
  Claim C7. Whatever subset of the 21 expected inputs is missing, when every input that is
  present is a 32x32 image the run ends normally, reports exactly the missing names (in
  table order), counts and writes one output file for each present input, holding the
  text emitted for its blob, and leaves every other file of the output directory as it
  was.
\<close>

theorem C7_missing_inputs:
  assumes "\<forall>(n, c)\<in>set EMOJI_MAP. fs (png_name n) = None \<or> valid_input fs n"
  shows "\<exists>st. main fs out0 = (st, None) \<and>
           reported_missing (console st)
             = map fst (filter (\<lambda>(n, c). fs (png_name n) = None) EMOJI_MAP) \<and>
           converted st = length (filter (\<lambda>(n, c). fs (png_name n) \<noteq> None) EMOJI_MAP) \<and>
           (\<forall>(n, c)\<in>set EMOJI_MAP. fs (png_name n) \<noteq> None \<longrightarrow>
              (\<exists>data. png_to_rgb565a8 fs (png_name n) = Inr data \<and>
                      out_dir st (c_name c) = Some (generate_c_file n c data))) \<and>
           (\<forall>(n, c)\<in>set EMOJI_MAP. fs (png_name n) = None \<longrightarrow>
              out_dir st (c_name c) = out0 (c_name c)) \<and>
           (\<forall>q. q \<notin> c_name ` snd ` set EMOJI_MAP \<longrightarrow> out_dir st q = out0 q)"
proof -
  let ?init = "\<lparr>out_dir = out0, console = [], converted = 0\<rparr>"
  let ?s = "fold (item_step fs) EMOJI_MAP ?init"
  let ?st = "?s\<lparr>console := console ?s @ [Summary (converted ?s) (length EMOJI_MAP)]\<rparr>"
  have run: "main fs out0 = (?st, None)"
    using assms by (rule main_valid)
  have rep: "reported_missing (console ?st)
      = map fst (filter (\<lambda>(n, c). fs (png_name n) = None) EMOJI_MAP)"
    by (simp add: reported_missing_append fold_step_missing [OF assms])
  have cnt: "converted ?st = length (filter (\<lambda>(n, c). fs (png_name n) \<noteq> None) EMOJI_MAP)"
    by (simp add: fold_step_converted [OF assms])
  have wr: "\<exists>data. png_to_rgb565a8 fs (png_name n) = Inr data \<and>
                   out_dir ?st (c_name c) = Some (generate_c_file n c data)"
    if "(n, c) \<in> set EMOJI_MAP" "fs (png_name n) \<noteq> None" for n c
  proof -
    from assms that(1) have "fs (png_name n) = None \<or> valid_input fs n" by blast
    then show ?thesis
    proof (cases rule: valid_item_cases)
      case missing
      with that(2) show ?thesis by simp
    next
      case (present f data)
      have "out_dir ?s (c_name c) = Some (generate_c_file n c data)"
        using distinct_codepoints that(1) present(1,2) by (rule fold_step_written)
      with present(2) show ?thesis by simp
    qed
  qed
  have un: "out_dir ?st q = out0 q"
    if "q \<notin> c_name ` snd ` set (filter (\<lambda>(n, c). fs (png_name n) \<noteq> None) EMOJI_MAP)" for q
    using fold_step_untouched [OF that, of ?init] by simp
  have ms: "out_dir ?st (c_name c) = out0 (c_name c)"
    if "(n, c) \<in> set EMOJI_MAP" "fs (png_name n) = None" for n c
  proof (rule un, rule notI)
    assume "c_name c \<in> c_name ` snd ` set (filter (\<lambda>(n, c). fs (png_name n) \<noteq> None) EMOJI_MAP)"
    then obtain n' where n': "(n', c) \<in> set EMOJI_MAP" "fs (png_name n') \<noteq> None"
      by (auto simp: c_name_inj)
    from distinct_codepoints n'(1) that(1) have "n' = n"
      by (rule same_codepoint_same_name)
    with n'(2) that(2) show False by simp
  qed
  have ot: "out_dir ?st q = out0 q" if "q \<notin> c_name ` snd ` set EMOJI_MAP" for q
    using that by (intro un) auto
  from run rep cnt wr ms ot show ?thesis by blast
qed


text \<open>With \<open>sad.png\<close> and \<open>cool.png\<close> missing: those two are reported, 19 files are written.\<close>

theorem C7_missing_inputs_witness:
  "\<exists>st. main partial_dir Map.empty = (st, None) \<and>
     reported_missing (console st) = [''sad'', ''cool''] \<and>
     converted st = 19 \<and>
     out_dir st (c_name ''1f614'') = None \<and>
     out_dir st (c_name ''1f60e'') = None \<and>
     (\<exists>data. png_to_rgb565a8 partial_dir ''happy.png'' = Inr data \<and>
        out_dir st (c_name ''1f642'') = Some (generate_c_file ''happy'' ''1f642'' data))"
proof -
  have h: "\<forall>(n, c)\<in>set EMOJI_MAP. partial_dir (png_name n) = None \<or> valid_input partial_dir n"
    by (simp add: EMOJI_MAP_def partial_dir_def full_dir_def png_name_def valid_input_def red32_def)
  have m: "map fst (filter (\<lambda>(n, c). partial_dir (png_name n) = None) EMOJI_MAP) = [''sad'', ''cool'']"
    by (simp add: EMOJI_MAP_def partial_dir_def full_dir_def png_name_def)
  have p: "length (filter (\<lambda>(n, c). partial_dir (png_name n) \<noteq> None) EMOJI_MAP) = 19"
    by (simp add: EMOJI_MAP_def partial_dir_def full_dir_def png_name_def)
  have i: "(''sad'', ''1f614'') \<in> set EMOJI_MAP" "(''cool'', ''1f60e'') \<in> set EMOJI_MAP"
    "(''happy'', ''1f642'') \<in> set EMOJI_MAP"
    by (simp_all add: EMOJI_MAP_def)
  have f: "partial_dir (png_name ''sad'') = None" "partial_dir (png_name ''cool'') = None"
    "partial_dir (png_name ''happy'') \<noteq> None" "png_name ''happy'' = ''happy.png''"
    by (simp_all add: partial_dir_def full_dir_def png_name_def)
  from C7_missing_inputs [OF h, of Map.empty]
  obtain st where st: "main partial_dir Map.empty = (st, None)"
    "reported_missing (console st)
       = map fst (filter (\<lambda>(n, c). partial_dir (png_name n) = None) EMOJI_MAP)"
    "converted st = length (filter (\<lambda>(n, c). partial_dir (png_name n) \<noteq> None) EMOJI_MAP)"
    "\<forall>(n, c)\<in>set EMOJI_MAP. partial_dir (png_name n) \<noteq> None \<longrightarrow>
       (\<exists>data. png_to_rgb565a8 partial_dir (png_name n) = Inr data \<and>
               out_dir st (c_name c) = Some (generate_c_file n c data))"
    "\<forall>(n, c)\<in>set EMOJI_MAP. partial_dir (png_name n) = None \<longrightarrow>
       out_dir st (c_name c) = Map.empty (c_name c)"
    by blast
  from st(5) i(1) f(1) have 1: "out_dir st (c_name ''1f614'') = None" by fastforce
  from st(5) i(2) f(2) have 2: "out_dir st (c_name ''1f60e'') = None" by fastforce
  from st(4) i(3) f(3) have 3: "\<exists>data. png_to_rgb565a8 partial_dir (png_name ''happy'') = Inr data \<and>
        out_dir st (c_name ''1f642'') = Some (generate_c_file ''happy'' ''1f642'' data)"
    by fastforce
  from st(1) st(2) st(3) 1 2 3 show ?thesis
    unfolding m p f(4) by blast
qed

text \<open>
  Claim C2 says that the driver catches the error of an input that is not 32x32 and
  goes on with the remaining items. It does not: \<open>main\<close> has no handler, so the
  assertion error ends the run. With a 16x16 \<open>neutral.png\<close> and every other input valid,
  the run ends with the assertion error after the first item and the valid input
  \<open>happy.png\<close> is never converted.
\<close>

theorem C2_counterexample:
  "snd (main bad_dir Map.empty) = Some (AssertionError (16, 16)) \<and>
   (''happy'', ''1f642'') \<in> set EMOJI_MAP \<and>
   valid_input bad_dir ''happy'' \<and>
   out_dir (fst (main bad_dir Map.empty)) (c_name ''1f642'') = None \<and>
   console (fst (main bad_dir Map.empty)) = [Started ''neutral'' ''1f636'']"
proof -
  have "main bad_dir Map.empty =
     (\<lparr>out_dir = Map.empty, console = [Started ''neutral'' ''1f636''], converted = 0\<rparr>,
      Some (AssertionError (16, 16)))"
    by (simp add: main_def EMOJI_MAP_def bad_dir_def full_dir_def png_name_def
        png_to_rgb565a8_def small16_def)
  moreover have "(''happy'', ''1f642'') \<in> set EMOJI_MAP"
    by (simp add: EMOJI_MAP_def)
  moreover have "valid_input bad_dir ''happy''"
    by (simp add: valid_input_def bad_dir_def full_dir_def png_name_def red32_def)
  ultimately show ?thesis by simp
qed

lemma mismatch_raises:
  assumes "fs p = Some (Png img)" "img_size img \<noteq> (32, 32)"
  shows "png_to_rgb565a8 fs p = Inl (AssertionError (img_size img))"
  using assms by (simp add: png_to_rgb565a8_def)

text \<open>
  Claim C2, amended. If the input of an item is present but not 32x32 (and the inputs of
  the items before it are missing or valid), encoding that item fails with an assertion
  error carrying the size, the driver does not catch it and the run ends there with that
  error: the last thing printed is the start of that item, the items before it have been
  reported or converted and written, and neither the failing item nor any item after it
  gets an output file.
\<close>

theorem C2_abort_on_mismatch:
  assumes "EMOJI_MAP = pre @ (name, cp) # post"
    and "\<forall>(n, c)\<in>set pre. fs (png_name n) = None \<or> valid_input fs n"
    and "fs (png_name name) = Some (Png img)" "img_size img \<noteq> (32, 32)"
  shows "png_to_rgb565a8 fs (png_name name) = Inl (AssertionError (img_size img)) \<and>
         (\<exists>st. main fs out0 = (st, Some (AssertionError (img_size img))) \<and>
            last (console st) = Started name cp \<and>
            reported_missing (console st)
              = map fst (filter (\<lambda>(n, c). fs (png_name n) = None) pre) \<and>
            converted st = length (filter (\<lambda>(n, c). fs (png_name n) \<noteq> None) pre) \<and>
            (\<forall>(n, c)\<in>set pre. fs (png_name n) \<noteq> None \<longrightarrow>
               (\<exists>data. png_to_rgb565a8 fs (png_name n) = Inr data \<and>
                       out_dir st (c_name c) = Some (generate_c_file n c data))) \<and>
            (\<forall>(n, c)\<in>set ((name, cp) # post). out_dir st (c_name c) = out0 (c_name c)))"
proof -
  let ?init = "\<lparr>out_dir = out0, console = [], converted = 0\<rparr>"
  let ?s = "fold (item_step fs) pre ?init"
  let ?st = "?s\<lparr>console := console ?s @ [Started name cp]\<rparr>"
  have raises: "png_to_rgb565a8 fs (png_name name) = Inl (AssertionError (img_size img))"
    using assms(3,4) by (rule mismatch_raises)
  have "convert_all fs EMOJI_MAP ?init = convert_all fs ((name, cp) # post) ?s"
    unfolding assms(1) using assms(2) by (rule convert_all_prefix)
  also have "\<dots> = (?st, Some (AssertionError (img_size img)))"
    using assms(3) raises by (rule convert_all_raises)
  finally have run: "main fs out0 = (?st, Some (AssertionError (img_size img)))"
    by (simp add: main_def)
  have dist: "distinct (map snd pre)" "\<forall>c\<in>snd ` set ((name, cp) # post). c \<notin> snd ` set pre"
    using distinct_codepoints unfolding assms(1) by auto
  have lst: "last (console ?st) = Started name cp" by simp
  have rep: "reported_missing (console ?st)
      = map fst (filter (\<lambda>(n, c). fs (png_name n) = None) pre)"
    by (simp add: reported_missing_append fold_step_missing [OF assms(2)])
  have cnt: "converted ?st = length (filter (\<lambda>(n, c). fs (png_name n) \<noteq> None) pre)"
    by (simp add: fold_step_converted [OF assms(2)])
  have wr: "\<exists>data. png_to_rgb565a8 fs (png_name n) = Inr data \<and>
                   out_dir ?st (c_name c) = Some (generate_c_file n c data)"
    if "(n, c) \<in> set pre" "fs (png_name n) \<noteq> None" for n c
  proof -
    from assms(2) that(1) have "fs (png_name n) = None \<or> valid_input fs n" by blast
    then show ?thesis
    proof (cases rule: valid_item_cases)
      case missing
      with that(2) show ?thesis by simp
    next
      case (present f data)
      have "out_dir ?s (c_name c) = Some (generate_c_file n c data)"
        using dist(1) that(1) present(1,2) by (rule fold_step_written)
      with present(2) show ?thesis by simp
    qed
  qed
  have later: "out_dir ?st (c_name c) = out0 (c_name c)"
    if "(n, c) \<in> set ((name, cp) # post)" for n c
  proof -
    from that have "c \<in> snd ` set ((name, cp) # post)" by force
    with dist(2) have "c \<notin> snd ` set pre" by blast
    then have "c_name c \<notin> c_name ` snd ` set (filter (\<lambda>(n, c). fs (png_name n) \<noteq> None) pre)"
      by (force simp: c_name_inj)
    from fold_step_untouched [OF this, of ?init] show ?thesis by simp
  qed
  from raises run lst rep cnt wr later show ?thesis by blast
qed


text \<open>
  With \<open>neutral.png\<close> missing, \<open>happy.png\<close> valid and a 16x16 \<open>laughing.png\<close>: one
  report, one file written, then the run ends at \<open>laughing\<close>.
\<close>

theorem C2_abort_on_mismatch_witness:
  "\<exists>st. main late_bad_dir Map.empty = (st, Some (AssertionError (16, 16))) \<and>
     last (console st) = Started ''laughing'' ''1f606'' \<and>
     reported_missing (console st) = [''neutral''] \<and>
     converted st = 1 \<and>
     (\<exists>data. png_to_rgb565a8 late_bad_dir ''happy.png'' = Inr data \<and>
        out_dir st (c_name ''1f642'') = Some (generate_c_file ''happy'' ''1f642'' data)) \<and>
     out_dir st (c_name ''1f606'') = None \<and>
     out_dir st (c_name ''1f614'') = None"
proof -
  let ?pre = "[(''neutral'', ''1f636''), (''happy'', ''1f642'')]"
  have e: "EMOJI_MAP = ?pre @ (''laughing'', ''1f606'') # drop 3 EMOJI_MAP"
    by (simp add: EMOJI_MAP_def)
  have h: "\<forall>(n, c)\<in>set ?pre. late_bad_dir (png_name n) = None \<or> valid_input late_bad_dir n"
    by (simp add: late_bad_dir_def full_dir_def png_name_def valid_input_def red32_def)
  have b: "late_bad_dir (png_name ''laughing'') = Some (Png small16)"
    by (simp add: late_bad_dir_def png_name_def)
  have s: "img_size small16 \<noteq> (32, 32)" "img_size small16 = (16, 16)"
    by (simp_all add: small16_def)
  have m: "map fst (filter (\<lambda>(n, c). late_bad_dir (png_name n) = None) ?pre) = [''neutral'']"
    by (simp add: late_bad_dir_def full_dir_def png_name_def)
  have p: "length (filter (\<lambda>(n, c). late_bad_dir (png_name n) \<noteq> None) ?pre) = 1"
    by (simp add: late_bad_dir_def full_dir_def png_name_def)
  have f: "late_bad_dir (png_name ''happy'') \<noteq> None" "png_name ''happy'' = ''happy.png''"
    by (simp_all add: late_bad_dir_def full_dir_def png_name_def)
  have i: "(''sad'', ''1f614'') \<in> set ((''laughing'', ''1f606'') # drop 3 EMOJI_MAP)"
    by (simp add: EMOJI_MAP_def)
  from C2_abort_on_mismatch [OF e h b s(1), of Map.empty]
  obtain st where st: "main late_bad_dir Map.empty = (st, Some (AssertionError (img_size small16)))"
    "last (console st) = Started ''laughing'' ''1f606''"
    "reported_missing (console st)
       = map fst (filter (\<lambda>(n, c). late_bad_dir (png_name n) = None) ?pre)"
    "converted st = length (filter (\<lambda>(n, c). late_bad_dir (png_name n) \<noteq> None) ?pre)"
    "\<forall>(n, c)\<in>set ?pre. late_bad_dir (png_name n) \<noteq> None \<longrightarrow>
       (\<exists>data. png_to_rgb565a8 late_bad_dir (png_name n) = Inr data \<and>
               out_dir st (c_name c) = Some (generate_c_file n c data))"
    "\<forall>(n, c)\<in>set ((''laughing'', ''1f606'') # drop 3 EMOJI_MAP).
       out_dir st (c_name c) = Map.empty (c_name c)"
    by blast
  from st(5) f(1) have 1: "\<exists>data. png_to_rgb565a8 late_bad_dir (png_name ''happy'') = Inr data \<and>
        out_dir st (c_name ''1f642'') = Some (generate_c_file ''happy'' ''1f642'' data)"
    by simp
  from st(6) have 2: "out_dir st (c_name ''1f606'') = None" by simp
  from st(6) i have 3: "out_dir st (c_name ''1f614'') = None" by fastforce
  from st(1,2,3,4) 1 2 3 show ?thesis
    unfolding m p f(2) s(2) by blast
qed

section \<open>Properties of the quantizer\<close>






















section \<open>Properties of the generation pipeline\<close>

lemma distinct_EMOTIONS: "distinct EMOTIONS"
  by (simp add: EMOTIONS_def)

lemma path_facts:
  "raw_path n = raw_path m \<longleftrightarrow> n = m"
  "final_path n = final_path m \<longleftrightarrow> n = m"
  "raw_path n \<noteq> final_path m"
  "raw_path n \<noteq> (PREVIEW_DIR, x)"
  "final_path n \<noteq> (PREVIEW_DIR, x)"
  "final_path n \<noteq> raw_path m"
  by (simp_all add: raw_path_def final_path_def RAW_DIR_def FINAL_DIR_def PREVIEW_DIR_def)

lemma gen_task_files:
  "p \<noteq> raw_path m \<Longrightarrow> files (gen_task gen m st) p = files st p"
  by (cases "gen m") (simp_all add: gen_task_def write_file_def)

lemma gen_task_writes:
  "p \<noteq> raw_path m \<Longrightarrow> p \<in> set (writes (gen_task gen m st)) \<longleftrightarrow> p \<in> set (writes st)"
  by (cases "gen m") (simp_all add: gen_task_def write_file_def)

lemma fold_gen_task_files:
  "p \<notin> raw_path ` set xs \<Longrightarrow> files (fold (gen_task gen) xs st) p = files st p"
  by (induction xs arbitrary: st) (simp_all add: gen_task_files)

lemma fold_gen_task_writes:
  "p \<notin> raw_path ` set xs \<Longrightarrow>
     p \<in> set (writes (fold (gen_task gen) xs st)) \<longleftrightarrow> p \<in> set (writes st)"
  by (induction xs arbitrary: st) (simp_all add: gen_task_writes)

lemma process_item_cases:
  obtains (unchanged) "process_item quantize enlarge m st = st"
      "files st (raw_path m) = None \<or> (\<exists>b. files st (raw_path m) = Some b \<and> quantize b = None)"
    | (saved) b q where "files st (raw_path m) = Some b" "quantize b = Some q"
      "process_item quantize enlarge m st =
         (write_file (PREVIEW_DIR, m @ ''.png'') (enlarge q) (write_file (final_path m) q st))
           \<lparr>processed := processed st + 1\<rparr>"
proof (cases "files st (raw_path m)")
  case None
  then have "process_item quantize enlarge m st = st" by (simp add: process_item_def)
  with None show ?thesis by (intro unchanged) simp_all
next
  case (Some b)
  show ?thesis
  proof (cases "quantize b")
    case None
    with Some have "process_item quantize enlarge m st = st"
      by (simp add: process_item_def process_to_monochrome_32_def)
    with Some None show ?thesis by (intro unchanged) simp_all
  next
    case q: (Some q)
    with Some have "process_item quantize enlarge m st =
         (write_file (PREVIEW_DIR, m @ ''.png'') (enlarge q) (write_file (final_path m) q st))
           \<lparr>processed := processed st + 1\<rparr>"
      by (simp add: process_item_def process_to_monochrome_32_def write_file_def final_path_def)
    with Some q show ?thesis by (intro saved)
  qed
qed

lemma process_item_raw:
  "files (process_item quantize enlarge m st) (raw_path n) = files st (raw_path n)"
  "raw_path n \<in> set (writes (process_item quantize enlarge m st)) \<longleftrightarrow> raw_path n \<in> set (writes st)"
  by (cases rule: process_item_cases [of quantize enlarge m st];
      simp add: write_file_def path_facts)+

lemma process_item_other:
  assumes "n \<noteq> m"
  shows "files (process_item quantize enlarge m st) (final_path n) = files st (final_path n)"
    and "final_path n \<in> set (writes (process_item quantize enlarge m st))
           \<longleftrightarrow> final_path n \<in> set (writes st)"
  using assms
  by (cases rule: process_item_cases [of quantize enlarge m st];
      simp add: write_file_def path_facts)+

lemma fold_process_raw:
  "files (fold (process_item quantize enlarge) xs st) (raw_path n) = files st (raw_path n)"
  "raw_path n \<in> set (writes (fold (process_item quantize enlarge) xs st))
     \<longleftrightarrow> raw_path n \<in> set (writes st)"
  by (induction xs arbitrary: st) (simp_all add: process_item_raw)

lemma fold_process_other:
  assumes "n \<notin> set xs"
  shows "files (fold (process_item quantize enlarge) xs st) (final_path n) = files st (final_path n)"
    and "final_path n \<in> set (writes (fold (process_item quantize enlarge) xs st))
           \<longleftrightarrow> final_path n \<in> set (writes st)"
  using assms by (induction xs arbitrary: st) (simp_all add: process_item_other)

lemma process_item_self_written:
  assumes "files st (raw_path n) = Some b" "quantize b = Some q"
  shows "files (process_item quantize enlarge n st) (final_path n) = Some q"
    and "final_path n \<in> set (writes (process_item quantize enlarge n st))"
  using assms
  by (cases rule: process_item_cases [of quantize enlarge n st];
      simp add: write_file_def path_facts)+

lemma process_item_self_failed:
  assumes "files st (raw_path n) = Some b" "quantize b = None"
  shows "process_item quantize enlarge n st = st"
  using assms by (simp add: process_item_def process_to_monochrome_32_def)


lemma fold_process_self:
  assumes "distinct xs" "n \<in> set xs" "files st (raw_path n) = Some b"
  shows "quantize b = Some q \<Longrightarrow>
           files (fold (process_item quantize enlarge) xs st) (final_path n) = Some q \<and>
           final_path n \<in> set (writes (fold (process_item quantize enlarge) xs st))"
    and "quantize b = None \<Longrightarrow>
           files (fold (process_item quantize enlarge) xs st) (final_path n) = files st (final_path n) \<and>
           (final_path n \<in> set (writes (fold (process_item quantize enlarge) xs st))
              \<longleftrightarrow> final_path n \<in> set (writes st))"
  using assms
proof (induction xs arbitrary: st)
  case Nil
  {
    case 1
    then show ?case by simp
  next
    case 2
    then show ?case by simp
  }
next
  case (Cons m xs)
  {
    case 1
    show ?case
    proof (cases "m = n")
      case True
      with 1(2) have "n \<notin> set xs" by simp
      then show ?thesis
        unfolding True fold_Cons comp_apply
        by (simp add: fold_process_other process_item_self_written [where quantize=quantize and st=st and b=b and q=q and n=n, OF 1(4,1)])
    next
      case False
      with 1 have "distinct xs" "n \<in> set xs"
        "files (process_item quantize enlarge m st) (raw_path n) = Some b"
        by (simp_all add: process_item_raw)
      with Cons.IH(1) [OF 1(1)] show ?thesis by simp
    qed
  next
    case 2
    show ?case
    proof (cases "m = n")
      case True
      with 2(2) have "n \<notin> set xs" by simp
      then show ?thesis
        unfolding True fold_Cons comp_apply
        by (simp add: fold_process_other process_item_self_failed [where quantize=quantize and st=st and b=b and n=n, OF 2(4,1)])
    next
      case False
      then have ne: "n \<noteq> m" by simp
      from False 2 have "distinct xs" "n \<in> set xs"
        "files (process_item quantize enlarge m st) (raw_path n) = Some b"
        by (simp_all add: process_item_raw)
      with Cons.IH(2) [OF 2(1)] show ?thesis by (simp add: process_item_other [OF ne])
    qed
  }
qed

lemma in_todo: "n \<in> set (todo fs) \<longleftrightarrow> n \<in> set EMOTIONS \<and> fs (raw_path n) = None"
  by (simp add: todo_def)

text \<open>
  Claim C9 says that re-running the pipeline leaves both output files of an expression
  whose files exist untouched. The raw image is skipped, the bitmap is not: the second
  step only looks whether the raw image exists and processes every raw image again. Here
  \<open>neutral\<close> has both files, the bitmap being the quantizer's output for the raw image;
  the run counts it as processed and writes its bitmap anew.
\<close>

theorem C9_counterexample:
  "demo_fs (raw_path ''neutral'') = Some ''line art'' \<and>
   demo_fs (final_path ''neutral'') = demo_quantize ''line art'' \<and>
   processed (pipeline_main demo_gen demo_quantize demo_enlarge demo_fs) = 1 \<and>
   final_path ''neutral'' \<in> set (writes (pipeline_main demo_gen demo_quantize demo_enlarge demo_fs))"
  by code_simp

text \<open>
  Claim C9, amended. For every expression whose raw image exists, a re-run does not ask
  for it again and never writes its raw file, which keeps its bytes. Its 32x32 bitmap is
  computed again from the raw image and written again on every run (so it holds the
  quantizer's output for the raw image afterwards); only when the quantizer raises on the
  raw image is the bitmap left as it was.
\<close>

theorem C9_rerun_keeps_raw_rewrites_bitmap:
  assumes "n \<in> set EMOTIONS" "fs (raw_path n) = Some b"
  shows "n \<notin> set (todo fs) \<and>
         files (pipeline_main gen quantize enlarge fs) (raw_path n) = Some b \<and>
         raw_path n \<notin> set (writes (pipeline_main gen quantize enlarge fs)) \<and>
         (\<forall>q. quantize b = Some q \<longrightarrow>
            files (pipeline_main gen quantize enlarge fs) (final_path n) = Some q \<and>
            final_path n \<in> set (writes (pipeline_main gen quantize enlarge fs))) \<and>
         (quantize b = None \<longrightarrow>
            files (pipeline_main gen quantize enlarge fs) (final_path n) = fs (final_path n) \<and>
            final_path n \<notin> set (writes (pipeline_main gen quantize enlarge fs)))"
proof -
  let ?st0 = "\<lparr>files = fs, writes = [], generated = 0, failed = 0,
               skipped = length (filter (\<lambda>emotion_name. fs (raw_path emotion_name) \<noteq> None) EMOTIONS),
               processed = 0\<rparr>"
  let ?st1 = "fold (gen_task gen) (todo fs) ?st0"
  have run: "pipeline_main gen quantize enlarge fs = fold (process_item quantize enlarge) EMOTIONS ?st1"
    by (simp add: pipeline_main_def Let_def)
  have nt: "n \<notin> set (todo fs)"
    using assms(2) by (simp add: in_todo)
  then have r: "raw_path n \<notin> raw_path ` set (todo fs)"
    by (auto simp: path_facts)
  have f: "final_path n \<notin> raw_path ` set (todo fs)"
    by (auto simp: path_facts)
  have raw1: "files ?st1 (raw_path n) = Some b" "raw_path n \<notin> set (writes ?st1)"
    using assms(2) by (simp_all add: fold_gen_task_files [OF r] fold_gen_task_writes [OF r])
  have fin1: "files ?st1 (final_path n) = fs (final_path n)" "final_path n \<notin> set (writes ?st1)"
    by (simp_all add: fold_gen_task_files [OF f] fold_gen_task_writes [OF f])
  have raw2: "files (pipeline_main gen quantize enlarge fs) (raw_path n) = Some b"
    "raw_path n \<notin> set (writes (pipeline_main gen quantize enlarge fs))"
    unfolding run fold_process_raw by (rule raw1)+
  have ok: "files (pipeline_main gen quantize enlarge fs) (final_path n) = Some q \<and>
            final_path n \<in> set (writes (pipeline_main gen quantize enlarge fs))"
    if "quantize b = Some q" for q
    using fold_process_self(1) [where quantize=quantize and xs=EMOTIONS and n=n and b=b and q=q
        and st="?st1" and enlarge=enlarge, OF distinct_EMOTIONS assms(1) raw1(1) that]
    unfolding run by simp
  have bad: "files (pipeline_main gen quantize enlarge fs) (final_path n) = fs (final_path n) \<and>
             final_path n \<notin> set (writes (pipeline_main gen quantize enlarge fs))"
    if "quantize b = None"
    using fold_process_self(2) [where quantize=quantize and xs=EMOTIONS and n=n and b=b
        and st="?st1" and enlarge=enlarge, OF distinct_EMOTIONS assms(1) raw1(1) that] fin1
    unfolding run by simp
  from nt raw2 ok bad show ?thesis by blast
qed

text \<open>The theorem on the example: the raw image of \<open>neutral\<close> stays, its bitmap is written.\<close>

theorem C9_rerun_keeps_raw_rewrites_bitmap_witness:
  "files (pipeline_main demo_gen demo_quantize demo_enlarge demo_fs) (raw_path ''neutral'')
     = Some ''line art'' \<and>
   raw_path ''neutral'' \<notin> set (writes (pipeline_main demo_gen demo_quantize demo_enlarge demo_fs)) \<and>
   files (pipeline_main demo_gen demo_quantize demo_enlarge demo_fs) (final_path ''neutral'')
     = Some ''mono:line art'' \<and>
   final_path ''neutral'' \<in> set (writes (pipeline_main demo_gen demo_quantize demo_enlarge demo_fs))"
proof -
  have n: "''neutral'' \<in> set EMOTIONS" by (simp add: EMOTIONS_def)
  have r: "demo_fs (raw_path ''neutral'') = Some ''line art''"
    by (simp add: demo_fs_def path_facts)
  have q: "demo_quantize ''line art'' = Some ''mono:line art''"
    by (simp add: demo_quantize_def)
  from C9_rerun_keeps_raw_rewrites_bitmap [where fs=demo_fs and n="''neutral''" and b="''line art''"
      and gen=demo_gen and quantize=demo_quantize and enlarge=demo_enlarge, OF n r] q
  show ?thesis by blast
qed

end
